theory Spec2Isabelle
  imports Main "HOL-Library.Word"
begin

section \<open>The session layer of freestyle-hid\<close>

text \<open>
  A shallow embedding of \<^verbatim>\<open>freestyle_hid/_session.py\<close>: the frame codec
  declared with \<^verbatim>\<open>construct\<close>, the record protection around the Speck
  primitives, the read loop with its keep-alive filter, the additive checksum and the two
  reply grammars. Python exceptions are values of \<open>error\<close>; a function that can
  raise returns \<open>error + 'a\<close>, with \<open>Inl\<close> for the exception.
\<close>

subsection \<open>Bytes and exceptions\<close>

type_synonym byte = "8 word"
type_synonym bytes = "byte list"

text \<open>
  The texts of \<^verbatim>\<open>CommandError\<close>: three fixed ones, and two that are formatted
  from the offending message (its type and content, or the \<^verbatim>\<open>repr\<close> of the text).
\<close>

datatype command_error_text =
    Invalid_command
  | Device_encryption_not_initialized
  | Device_encryption_initialization_failed
  | Content_does_not_match_expectations int bytes
  | Repr bytes

datatype error =
    AssertionError
  | IndexError
  | AttributeError
  | OverflowError
  | ValueError
  | FormatFieldError
  | PaddingError
  | ConstError
  | StreamError
  | ChecksumError int int
  | CommandError command_error_text
  | ConnectionError int bytes
  | ReadBlocked
  | RecursionError

text \<open>Python's \<^verbatim>\<open>xs[i:j]\<close> for \<open>0 \<le> i\<close>, \<open>0 \<le> j\<close>: out-of-range bounds are clamped.\<close>

definition slice :: "nat \<Rightarrow> nat \<Rightarrow> 'a list \<Rightarrow> 'a list" where
  "slice i j xs = take (j - i) (drop i xs)"

text \<open>
  \<^verbatim>\<open>output[i:j] = ys\<close> on a bytearray, for \<open>i \<le> j\<close>: the slice is replaced by
  \<open>ys\<close>, whatever its length.
\<close>

definition slice_assign :: "nat \<Rightarrow> nat \<Rightarrow> 'a list \<Rightarrow> 'a list \<Rightarrow> 'a list" where
  "slice_assign i j ys xs = take i xs @ ys @ drop j xs"

subsection \<open>The frame codec\<close>

text \<open>
  \<^verbatim>\<open>
  _FREESTYLE_MESSAGE = construct.Struct(
      hid_report=construct.Const(0, construct.Byte),
      message_type=construct.Byte,
      command=construct.Padded(
          63,  # command can only be up to 62 bytes, but one is used for length.
          construct.Prefixed(construct.Byte, construct.GreedyBytes),
      ),
  )
  \<close>
  Each construct is modelled by what its \<^verbatim>\<open>build\<close> writes and what its
  \<^verbatim>\<open>parse\<close> reads from the front of a stream (the bytes that are left are
  returned with the value).
\<close>

definition Byte_build :: "int \<Rightarrow> error + bytes" where
  "Byte_build v = (if 0 \<le> v \<and> v \<le> 255 then Inr [word_of_int v] else Inl FormatFieldError)"

definition Byte_parse :: "bytes \<Rightarrow> error + (byte \<times> bytes)" where
  "Byte_parse stream = (case stream of [] \<Rightarrow> Inl StreamError | b # rest \<Rightarrow> Inr (b, rest))"

definition Const_Byte_build :: "int \<Rightarrow> error + bytes" where
  "Const_Byte_build c = Byte_build c"

definition Const_Byte_parse :: "int \<Rightarrow> bytes \<Rightarrow> error + (byte \<times> bytes)" where
  "Const_Byte_parse c stream =
     (case Byte_parse stream of
        Inl e \<Rightarrow> Inl e
      | Inr (b, rest) \<Rightarrow> if uint b = c then Inr (b, rest) else Inl ConstError)"

text \<open>\<^verbatim>\<open>Prefixed(Byte, GreedyBytes)\<close>: a length byte, then that many bytes.\<close>

definition Prefixed_build :: "bytes \<Rightarrow> error + bytes" where
  "Prefixed_build data =
     (case Byte_build (int (length data)) of
        Inl e \<Rightarrow> Inl e
      | Inr prefix \<Rightarrow> Inr (prefix @ data))"

definition Prefixed_parse :: "bytes \<Rightarrow> error + (bytes \<times> bytes)" where
  "Prefixed_parse stream =
     (case Byte_parse stream of
        Inl e \<Rightarrow> Inl e
      | Inr (n, rest) \<Rightarrow>
          if length rest < unat n then Inl StreamError
          else Inr (take (unat n) rest, drop (unat n) rest))"

text \<open>
  \<^verbatim>\<open>Padded(length, subcon)\<close>: the subconstruct, then zero bytes up to
  \<open>length\<close>; \<^verbatim>\<open>PaddingError\<close> when the subconstruct took more.
\<close>

definition Padded_build :: "nat \<Rightarrow> (error + bytes) \<Rightarrow> error + bytes" where
  "Padded_build n sub =
     (case sub of
        Inl e \<Rightarrow> Inl e
      | Inr data \<Rightarrow>
          if n < length data then Inl PaddingError
          else Inr (data @ replicate (n - length data) 0))"

definition Padded_parse ::
  "nat \<Rightarrow> (bytes \<Rightarrow> error + ('a \<times> bytes)) \<Rightarrow> bytes \<Rightarrow> error + ('a \<times> bytes)" where
  "Padded_parse n sub stream =
     (case sub stream of
        Inl e \<Rightarrow> Inl e
      | Inr (obj, rest) \<Rightarrow>
          let used = length stream - length rest in
          if n < used then Inl PaddingError
          else if length rest < n - used then Inl StreamError
          else Inr (obj, drop (n - used) rest))"

record freestyle_message =
  hid_report :: byte
  message_type :: byte
  command :: bytes

definition FREESTYLE_MESSAGE_build :: "int \<Rightarrow> bytes \<Rightarrow> error + bytes" where
  "FREESTYLE_MESSAGE_build mtype cmd =
     (case Const_Byte_build 0 of
        Inl e \<Rightarrow> Inl e
      | Inr b0 \<Rightarrow>
          (case Byte_build mtype of
             Inl e \<Rightarrow> Inl e
           | Inr b1 \<Rightarrow>
               (case Padded_build 63 (Prefixed_build cmd) of
                  Inl e \<Rightarrow> Inl e
                | Inr b2 \<Rightarrow> Inr (b0 @ b1 @ b2))))"

definition FREESTYLE_MESSAGE_parse :: "bytes \<Rightarrow> error + freestyle_message" where
  "FREESTYLE_MESSAGE_parse stream =
     (case Const_Byte_parse 0 stream of
        Inl e \<Rightarrow> Inl e
      | Inr (r, s1) \<Rightarrow>
          (case Byte_parse s1 of
             Inl e \<Rightarrow> Inl e
           | Inr (t, s2) \<Rightarrow>
               (case Padded_parse 63 Prefixed_parse s2 of
                  Inl e \<Rightarrow> Inl e
                | Inr (c, s3) \<Rightarrow>
                    Inr \<lparr>hid_report = r, message_type = t, command = c\<rparr>)))"

subsection \<open>Constants and matchers\<close>

definition INIT_COMMAND :: int where "INIT_COMMAND = 0x01"
definition INIT_RESPONSE :: int where "INIT_RESPONSE = 0x71"
definition KEEPALIVE_RESPONSE :: int where "KEEPALIVE_RESPONSE = 0x22"
definition UNKNOWN_MESSAGE_RESPONSE :: int where "UNKNOWN_MESSAGE_RESPONSE = 0x30"
definition ENCRYPTION_SETUP_COMMAND :: int where "ENCRYPTION_SETUP_COMMAND = 0x14"
definition ENCRYPTION_SETUP_RESPONSE :: int where "ENCRYPTION_SETUP_RESPONSE = 0x33"

definition AUTH_ENC_MASTER_KEY :: int where "AUTH_ENC_MASTER_KEY = 0xdeadbeef"
definition AUTH_MAC_MASTER_KEY :: int where "AUTH_MAC_MASTER_KEY = 0xdeadbeef"
definition SESS_ENC_MASTER_KEY :: int where "SESS_ENC_MASTER_KEY = 0xdeadbeef"
definition SESS_MAC_MASTER_KEY :: int where "SESS_MAC_MASTER_KEY = 0xdeadbeef"

definition ALWAYS_UNENCRYPTED_MESSAGES :: "int list" where
  "ALWAYS_UNENCRYPTED_MESSAGES =
     [INIT_COMMAND, 0x04, 0x05, 0x06, 0x0C, 0x0D, ENCRYPTION_SETUP_COMMAND, 0x15,
      ENCRYPTION_SETUP_RESPONSE, 0x34, 0x35, INIT_RESPONSE, KEEPALIVE_RESPONSE]"

text \<open>A message as \<^verbatim>\<open>read_response\<close> returns it: the type and the payload.\<close>

type_synonym message = "int \<times> bytes"

definition create_matcher :: "int \<Rightarrow> bytes option \<Rightarrow> message \<Rightarrow> bool" where
  "create_matcher mtype content msg =
     (fst msg = mtype \<and> (case content of None \<Rightarrow> True | Some c \<Rightarrow> c = snd msg))"

definition is_init_reply :: "message \<Rightarrow> bool" where
  "is_init_reply = create_matcher INIT_RESPONSE (Some [0x01])"

definition is_keepalive_response :: "message \<Rightarrow> bool" where
  "is_keepalive_response = create_matcher KEEPALIVE_RESPONSE None"

definition is_unknown_message_error :: "message \<Rightarrow> bool" where
  "is_unknown_message_error = create_matcher UNKNOWN_MESSAGE_RESPONSE (Some [0x85])"

definition is_encryption_missing_error :: "message \<Rightarrow> bool" where
  "is_encryption_missing_error = create_matcher ENCRYPTION_SETUP_RESPONSE (Some [0x15])"

definition is_encryption_setup_error :: "message \<Rightarrow> bool" where
  "is_encryption_setup_error = create_matcher ENCRYPTION_SETUP_RESPONSE (Some [0x14])"

subsection \<open>The collaborators of the session\<close>

text \<open>
  The classes \<^verbatim>\<open>SpeckEncrypt\<close> and \<^verbatim>\<open>SpeckCMAC\<close> of the module
  \<^verbatim>\<open>_freestyle_encryption\<close> are parameters of the model: a key (a Python int)
  stands for the object built from it, and the four methods the session calls are the
  fields of \<open>speck\<close>, each taking the key first.
\<close>

record speck =
  SpeckEncrypt_encrypt :: "int \<Rightarrow> int \<Rightarrow> bytes \<Rightarrow> bytes"
  SpeckEncrypt_decrypt :: "int \<Rightarrow> int \<Rightarrow> bytes \<Rightarrow> bytes"
  SpeckCMAC_sign :: "int \<Rightarrow> bytes \<Rightarrow> int"
  SpeckCMAC_derive :: "int \<Rightarrow> bytes \<Rightarrow> bytes \<Rightarrow> int"

text \<open>
  Modelled from the spec: the class \<^verbatim>\<open>HidWrapper\<close> of the module
  \<^verbatim>\<open>_hidwrapper\<close>, which is not among the sources. The transport
  exchanges whole reports and does nothing else: \<^verbatim>\<open>write\<close> hands a frame to
  the device, \<^verbatim>\<open>read\<close> blocks until the next report. The device is the list
  of reports it will still deliver and the list of frames written so far; a read with no
  report left never returns, which is the value \<open>ReadBlocked\<close>.
\<close>

record hid =
  inbound :: "bytes list"
  outbound :: "bytes list"

definition HidWrapper_write :: "hid \<Rightarrow> bytes \<Rightarrow> hid" where
  "HidWrapper_write h report = h\<lparr>outbound := outbound h @ [report]\<rparr>"

definition HidWrapper_read :: "hid \<Rightarrow> error + (bytes \<times> hid)" where
  "HidWrapper_read h =
     (case inbound h of
        [] \<Rightarrow> Inl ReadBlocked
      | report # rest \<Rightarrow> Inr (report, h\<lparr>inbound := rest\<rparr>))"

text \<open>A Python \<^verbatim>\<open>str\<close>: its code points.\<close>

type_synonym str = "nat list"

text \<open>
  The attributes of a \<^verbatim>\<open>Session\<close>. The attribute \<^verbatim>\<open>_encoding\<close> names a
  codec; the field holds what \<^verbatim>\<open>bytes.decode(self._encoding, "replace")\<close> computes
  with it. \<^verbatim>\<open>crypt_enc\<close> and \<^verbatim>\<open>crypt_mac\<close> do not exist before a
  handshake has set them (\<open>None\<close>): reading them raises \<^verbatim>\<open>AttributeError\<close>.
\<close>

record session =
  handle :: hid
  text_message_type :: int
  text_reply_message_type :: int
  encoding :: "bytes \<Rightarrow> str"
  encrypted_protocol :: bool
  crypt_enc :: "int option"
  crypt_mac :: "int option"

text \<open>The codec \<^verbatim>\<open>"ascii"\<close>, the default: a byte above 127 decodes to U+FFFD.\<close>

definition ascii_decode_replace :: "bytes \<Rightarrow> str" where
  "ascii_decode_replace bs = map (\<lambda>b. if unat b < 128 then unat b else 0xFFFD) bs"

text \<open>
  \<^verbatim>\<open>Session(product_id, device_path, text_message_type, text_reply_message_type,
  encoding)\<close>, on the device that \<^verbatim>\<open>HidWrapper.open\<close> found.
\<close>

definition Session_init :: "hid \<Rightarrow> int option \<Rightarrow> int \<Rightarrow> int \<Rightarrow> (bytes \<Rightarrow> str) \<Rightarrow> session" where
  "Session_init device product_id tmt trmt enc =
     \<lparr>handle = device, text_message_type = tmt, text_reply_message_type = trmt,
      encoding = enc, encrypted_protocol = (product_id = Some 0x3950),
      crypt_enc = None, crypt_mac = None\<rparr>"

subsection \<open>Integers and bytes\<close>

text \<open>\<^verbatim>\<open>int.to_bytes(v, n, byteorder='little', signed=False)\<close>.\<close>

definition int_to_bytes_little :: "nat \<Rightarrow> int \<Rightarrow> error + bytes" where
  "int_to_bytes_little n v =
     (if v < 0 \<or> 256 ^ n \<le> v then Inl OverflowError
      else Inr (map (\<lambda>k. word_of_int (v div 256 ^ k)) [0..<n]))"

text \<open>\<^verbatim>\<open>int.from_bytes(bs, 'big', signed=False)\<close>.\<close>

definition int_from_bytes_big :: "bytes \<Rightarrow> int" where
  "int_from_bytes_big bs = foldl (\<lambda>acc b. acc * 256 + uint b) 0 bs"

subsection \<open>Record protection\<close>

definition encrypt_message :: "speck \<Rightarrow> session \<Rightarrow> bytes \<Rightarrow> error + bytes" where
  "encrypt_message P s packet =
     (case crypt_enc s of
        None \<Rightarrow> Inl AttributeError
      | Some enc_key \<Rightarrow>
          let encrypted = SpeckEncrypt_encrypt P enc_key 0xFF (slice 2 57 packet);
              output = slice_assign 2 57 encrypted packet;
              output = slice_assign 57 61 (replicate 4 0) output
          in (case crypt_mac s of
                None \<Rightarrow> Inl AttributeError
              | Some mac_key \<Rightarrow>
                  (case int_to_bytes_little 8 (SpeckCMAC_sign P mac_key (slice 1 61 output)) of
                     Inl e \<Rightarrow> Inl e
                   | Inr mac \<Rightarrow> Inr (slice_assign 61 65 (drop 4 mac) output))))"

definition decrypt_message :: "speck \<Rightarrow> session \<Rightarrow> bytes \<Rightarrow> error + bytes" where
  "decrypt_message P s packet =
     (case crypt_mac s of
        None \<Rightarrow> Inl AttributeError
      | Some mac_key \<Rightarrow>
          (case int_to_bytes_little 8 (SpeckCMAC_sign P mac_key (take 60 packet)) of
             Inl e \<Rightarrow> Inl e
           | Inr mac8 \<Rightarrow>
               if drop 4 mac8 \<noteq> slice 60 64 packet then Inl AssertionError
               else
                 let iv = int_from_bytes_big (slice 56 60 packet) * 2 ^ 8 in
                 (case crypt_enc s of
                    None \<Rightarrow> Inl AttributeError
                  | Some enc_key \<Rightarrow>
                      Inr (slice_assign 1 56
                             (SpeckEncrypt_decrypt P enc_key iv (slice 1 56 packet)) packet))))"

subsection \<open>Sending and reading\<close>

text \<open>
  \<^verbatim>\<open>send_command\<close> and \<^verbatim>\<open>read_response\<close> take a parameter
  \<^verbatim>\<open>encrypted\<close> that neither of them reads; the model leaves it out.
\<close>

definition send_command :: "speck \<Rightarrow> session \<Rightarrow> int \<Rightarrow> bytes \<Rightarrow> error + session" where
  "send_command P s mtype cmd =
     (case FREESTYLE_MESSAGE_build mtype cmd of
        Inl e \<Rightarrow> Inl e
      | Inr usb_packet \<Rightarrow>
          (case (if encrypted_protocol s \<and> mtype \<notin> set ALWAYS_UNENCRYPTED_MESSAGES
                 then encrypt_message P s usb_packet else Inr usb_packet) of
             Inl e \<Rightarrow> Inl e
           | Inr usb_packet \<Rightarrow> Inr (s\<lparr>handle := HidWrapper_write (handle s) usb_packet\<rparr>)))"

text \<open>
  The first half of \<^verbatim>\<open>read_response\<close>, from \<^verbatim>\<open>assert usb_packet\<close> to the
  tuple \<^verbatim>\<open>message\<close>: the type is byte 0 of the packet as it was read, the length
  byte and the payload are bytes 1 and 2.. of the packet after decryption. Indexing
  raises \<^verbatim>\<open>IndexError\<close> out of range; slicing does not.
\<close>

definition response_message :: "speck \<Rightarrow> session \<Rightarrow> bytes \<Rightarrow> error + message" where
  "response_message P s usb_packet =
     (if usb_packet = [] then Inl AssertionError
      else
        let mtype = uint (usb_packet ! 0) in
        (case (if encrypted_protocol s \<and> mtype \<notin> set ALWAYS_UNENCRYPTED_MESSAGES
               then decrypt_message P s usb_packet else Inr usb_packet) of
           Inl e \<Rightarrow> Inl e
         | Inr usb_packet \<Rightarrow>
             if length usb_packet < 2 then Inl IndexError
             else
               let message_length = unat (usb_packet ! 1);
                   message_end_idx = 2 + message_length;
                   message_content = slice 2 message_end_idx usb_packet
               in Inr (mtype, message_content)))"

text \<open>
  \<^verbatim>\<open>read_response\<close> calls itself for every keep-alive it reads, and Python
  bounds the depth of its call stack (\<^verbatim>\<open>sys.getrecursionlimit()\<close>, 1000 unless
  it is changed): a call that the stack has no room for raises
  \<^verbatim>\<open>RecursionError\<close>. The argument \<open>depth\<close> is the number of further nested
  calls of \<^verbatim>\<open>read_response\<close> that the stack has room for when the call is
  made. Every operation that reads responses takes it, for the calls of
  \<^verbatim>\<open>read_response\<close> that it makes.
\<close>

function read_response :: "speck \<Rightarrow> nat \<Rightarrow> session \<Rightarrow> error + (message \<times> session)" where
  "read_response P depth s =
     (case HidWrapper_read (handle s) of
        Inl e \<Rightarrow> Inl e
      | Inr (usb_packet, h) \<Rightarrow>
          (case response_message P s usb_packet of
             Inl e \<Rightarrow> Inl e
           | Inr msg \<Rightarrow>
               if is_keepalive_response msg
                 then if depth = 0 then Inl RecursionError
                      else read_response P (depth - 1) (s\<lparr>handle := h\<rparr>)
               else if is_unknown_message_error msg then Inl (CommandError Invalid_command)
               else if is_encryption_missing_error msg
                 then Inl (CommandError Device_encryption_not_initialized)
               else if is_encryption_setup_error msg
                 then Inl (CommandError Device_encryption_initialization_failed)
               else Inr (msg, s\<lparr>handle := h\<rparr>)))"
  by pat_completeness auto
termination
proof (relation "measure (\<lambda>(P, depth, s). length (inbound (handle s)))")
  show "wf (measure (\<lambda>(P, depth, s). length (inbound (handle s))))"
    by simp
next
  fix P :: speck and depth :: nat and s :: session and x2 :: "bytes \<times> hid" and usb_packet h
  assume "HidWrapper_read (handle s) = Inr x2" "(usb_packet, h) = x2"
  then show "((P, depth - 1, s\<lparr>handle := h\<rparr>), (P, depth, s)) \<in>
      measure (\<lambda>(P, depth, s). length (inbound (handle s)))"
    by (auto simp: HidWrapper_read_def split: list.splits)
qed

declare read_response.simps [simp del]

subsection \<open>The checksum\<close>

text \<open>
  \<^verbatim>\<open>int(expected_checksum_hex, 16)\<close> on \<^verbatim>\<open>bytes\<close>, as CPython reads
  it: white space, a sign, the prefix \<^verbatim>\<open>0x\<close> or \<^verbatim>\<open>0X\<close> (and one
  underscore after it), then hexadecimal digits of either case with single underscores
  between them, then white space to the end. Anything else raises
  \<^verbatim>\<open>ValueError\<close>.
\<close>

definition hex_digit_value :: "byte \<Rightarrow> int option" where
  "hex_digit_value c =
     (if 0x30 \<le> c \<and> c \<le> 0x39 then Some (uint c - 0x30)
      else if 0x41 \<le> c \<and> c \<le> 0x46 then Some (uint c - 0x41 + 10)
      else if 0x61 \<le> c \<and> c \<le> 0x66 then Some (uint c - 0x61 + 10)
      else None)"

text \<open>The white space of \<^verbatim>\<open>Py_ISSPACE\<close>: the space and the bytes 9 to 13.\<close>

definition is_space :: "byte \<Rightarrow> bool" where
  "is_space c = (c = 0x20 \<or> 0x09 \<le> c \<and> c \<le> 0x0D)"

text \<open>
  The digits, with the byte before (\<open>prev\<close>) and the number of digits read so far:
  the value, the number of digits and what follows them, or nothing when an underscore
  follows an underscore or ends the digits.
\<close>

fun scan_digits :: "int \<Rightarrow> byte \<Rightarrow> nat \<Rightarrow> bytes \<Rightarrow> (int \<times> nat \<times> bytes) option" where
  "scan_digits acc prev digits [] = (if prev = 0x5F then None else Some (acc, digits, []))"
| "scan_digits acc prev digits (c # cs) =
     (if c = 0x5F then (if prev = 0x5F then None else scan_digits acc c digits cs)
      else
        (case hex_digit_value c of
           Some d \<Rightarrow> scan_digits (acc * 16 + d) c (Suc digits) cs
         | None \<Rightarrow> if prev = 0x5F then None else Some (acc, digits, c # cs)))"

definition int_base16 :: "bytes \<Rightarrow> error + int" where
  "int_base16 text =
     (let s1 = dropWhile is_space text;
          sign = (if take 1 s1 = [0x2D] then - 1 else 1);
          s2 = (if take 1 s1 = [0x2B] \<or> take 1 s1 = [0x2D] then drop 1 s1 else s1);
          s3 = (if take 2 s2 = [0x30, 0x78] \<or> take 2 s2 = [0x30, 0x58]
                then (if take 1 (drop 2 s2) = [0x5F] then drop 3 s2 else drop 2 s2)
                else s2)
      in if take 1 s3 = [0x5F] then Inl ValueError
         else
           (case scan_digits 0 0 0 s3 of
              None \<Rightarrow> Inl ValueError
            | Some (v, digits, rest) \<Rightarrow>
                if digits = 0 then Inl ValueError
                else if dropWhile is_space rest \<noteq> [] then Inl ValueError
                else Inr (sign * v)))"

text \<open>
  \<^verbatim>\<open>_verify_checksum(message, expected_checksum_hex)\<close> on \<^verbatim>\<open>bytes\<close>,
  which is what the session passes: the sum is a Python int and is not reduced.
\<close>

definition verify_checksum :: "bytes \<Rightarrow> bytes \<Rightarrow> error + unit" where
  "verify_checksum msg expected_checksum_hex =
     (case int_base16 expected_checksum_hex of
        Inl e \<Rightarrow> Inl e
      | Inr expected_checksum \<Rightarrow>
          let calculated_checksum = sum_list (map uint msg) in
          if expected_checksum \<noteq> calculated_checksum
          then Inl (ChecksumError expected_checksum calculated_checksum)
          else Inr ())"

text \<open>
  The checksum as the device writes it, following the words of the specification: the eight
  upper-case hexadecimal digits of a number below \<open>2 ^ 32\<close>, most significant first.
\<close>

definition hex_digit_upper :: "int \<Rightarrow> byte" where
  "hex_digit_upper d = (if d < 10 then word_of_int (0x30 + d) else word_of_int (0x41 + (d - 10)))"

definition hex8 :: "int \<Rightarrow> bytes" where
  "hex8 n = map (\<lambda>k. hex_digit_upper (n div 16 ^ k mod 16)) [7, 6, 5, 4, 3, 2, 1, 0]"

text \<open>A \<^verbatim>\<open>bytes\<close> literal of ASCII characters.\<close>

definition ascii :: "string \<Rightarrow> bytes" where
  "ascii text = map of_char text"

definition crlf :: bytes where
  "crlf = [0x0D, 0x0A]"

subsection \<open>The handshake and the connection\<close>

text \<open>
  \<^verbatim>\<open>encryption_handshake\<close>; \<open>driver_rand\<close> is what
  \<^verbatim>\<open>random.randbytes(8)\<close> returns in this call.
\<close>

definition encryption_handshake :: "speck \<Rightarrow> nat \<Rightarrow> bytes \<Rightarrow> session \<Rightarrow> error + session" where
  "encryption_handshake P depth driver_rand s =
     (case send_command P s 0x05 [] of
        Inl e \<Rightarrow> Inl e
      | Inr s1 \<Rightarrow>
     (case read_response P depth s1 of
        Inl e \<Rightarrow> Inl e
      | Inr (response, s2) \<Rightarrow>
     if fst response \<noteq> 0x06 then Inl AssertionError
     else
       let serial = take 13 (snd response);
           auth_enc_key = SpeckCMAC_derive P AUTH_ENC_MASTER_KEY (ascii ''AuthrEnc'') serial;
           auth_mac_key = SpeckCMAC_derive P AUTH_MAC_MASTER_KEY (ascii ''AuthrMAC'') serial
       in
     (case send_command P s2 ENCRYPTION_SETUP_COMMAND [0x11] of
        Inl e \<Rightarrow> Inl e
      | Inr s3 \<Rightarrow>
     (case read_response P depth s3 of
        Inl e \<Rightarrow> Inl e
      | Inr (response, s4) \<Rightarrow>
     if fst response \<noteq> ENCRYPTION_SETUP_RESPONSE then Inl AssertionError
     else if snd response = [] then Inl IndexError
     else if snd response ! 0 \<noteq> 0x16 then Inl AssertionError
     else
       let reader_rand = slice 1 9 (snd response);
           iv = int_from_bytes_big (slice 9 16 (snd response));
           resp_enc = SpeckEncrypt_encrypt P auth_enc_key iv (reader_rand @ driver_rand)
       in
     (case int_to_bytes_little 8
             (SpeckCMAC_sign P auth_mac_key ([0x14, 0x1a, 0x17] @ resp_enc @ [0x01])) of
        Inl e \<Rightarrow> Inl e
      | Inr resp_mac \<Rightarrow>
     (case send_command P s4 ENCRYPTION_SETUP_COMMAND ([0x17] @ resp_enc @ [0x01] @ resp_mac) of
        Inl e \<Rightarrow> Inl e
      | Inr s5 \<Rightarrow>
     (case read_response P depth s5 of
        Inl e \<Rightarrow> Inl e
      | Inr (response, s6) \<Rightarrow>
     if fst response \<noteq> ENCRYPTION_SETUP_RESPONSE then Inl AssertionError
     else if snd response = [] then Inl IndexError
     else if snd response ! 0 \<noteq> 0x18 then Inl AssertionError
     else
     (case int_to_bytes_little 8
             (SpeckCMAC_sign P auth_mac_key ([0x33, 0x22] @ take 24 (snd response))) of
        Inl e \<Rightarrow> Inl e
      | Inr mac \<Rightarrow>
     if mac \<noteq> slice 24 32 (snd response) then Inl AssertionError
     else
       let iv = int_from_bytes_big (slice 17 24 (snd response));
           resp_dec = SpeckEncrypt_decrypt P auth_enc_key iv (slice 1 17 (snd response))
       in
     if take 8 resp_dec \<noteq> driver_rand then Inl AssertionError
     else if drop 8 resp_dec \<noteq> reader_rand then Inl AssertionError
     else
       let ses_enc_key = SpeckCMAC_derive P SESS_ENC_MASTER_KEY (ascii ''SessnEnc'')
                           (serial @ reader_rand @ driver_rand);
           ses_mac_key = SpeckCMAC_derive P SESS_MAC_MASTER_KEY (ascii ''SessnMAC'')
                           (serial @ reader_rand @ driver_rand)
       in Inr (s6\<lparr>crypt_enc := Some ses_enc_key, crypt_mac := Some ses_mac_key\<rparr>)))))))))"

text \<open>
  \<^verbatim>\<open>connect\<close>. The handshake is one call deeper than \<^verbatim>\<open>connect\<close>
  itself, and so are the calls of \<^verbatim>\<open>read_response\<close> it makes.
\<close>

definition connect :: "speck \<Rightarrow> nat \<Rightarrow> bytes \<Rightarrow> session \<Rightarrow> error + session" where
  "connect P depth driver_rand s =
     (case (if encrypted_protocol s
            then if depth = 0 then Inl RecursionError
                 else encryption_handshake P (depth - 1) driver_rand s
            else Inr s) of
        Inl e \<Rightarrow> Inl e
      | Inr s1 \<Rightarrow>
          (case send_command P s1 INIT_COMMAND [] of
             Inl e \<Rightarrow> Inl e
           | Inr s2 \<Rightarrow>
               (case read_response P depth s2 of
                  Inl e \<Rightarrow> Inl e
                | Inr (response, s3) \<Rightarrow>
                    if \<not> is_init_reply response
                    then Inl (ConnectionError (fst response) (snd response))
                    else Inr s3)))"

subsection \<open>The reply grammars\<close>

text \<open>
  The three patterns are matched as Python's backtracking matcher does it. Each piece of
  a pattern takes the matcher of the rest of the pattern as its continuation \<open>k\<close>; a
  greedy repetition first tries to take one more byte, and only when the rest fails
  after that does it try the rest where it stands.
\<close>

fun literal :: "bytes \<Rightarrow> (bytes \<Rightarrow> 'a option) \<Rightarrow> bytes \<Rightarrow> 'a option" where
  "literal [] k s = k s"
| "literal (c # cs) k [] = None"
| "literal (c # cs) k (x # xs) = (if x = c then literal cs k xs else None)"

fun greedy_star ::
  "(byte \<Rightarrow> bool) \<Rightarrow> (bytes \<Rightarrow> 'a option) \<Rightarrow> bytes \<Rightarrow> bytes \<Rightarrow> (bytes \<times> 'a) option" where
  "greedy_star cls k acc [] = map_option (Pair acc) (k [])"
| "greedy_star cls k acc (x # xs) =
     (case (if cls x then greedy_star cls k (acc @ [x]) xs else None) of
        Some r \<Rightarrow> Some r
      | None \<Rightarrow> map_option (Pair acc) (k (x # xs)))"

definition greedy_plus ::
  "(byte \<Rightarrow> bool) \<Rightarrow> (bytes \<Rightarrow> 'a option) \<Rightarrow> bytes \<Rightarrow> (bytes \<times> 'a) option" where
  "greedy_plus cls k s =
     (case s of [] \<Rightarrow> None | x # xs \<Rightarrow> if cls x then greedy_star cls k [x] xs else None)"

fun counted ::
  "nat \<Rightarrow> (byte \<Rightarrow> bool) \<Rightarrow> (bytes \<Rightarrow> 'a option) \<Rightarrow> bytes \<Rightarrow> bytes \<Rightarrow> (bytes \<times> 'a) option" where
  "counted 0 cls k acc s = map_option (Pair acc) (k s)"
| "counted (Suc n) cls k acc [] = None"
| "counted (Suc n) cls k acc (x # xs) =
     (if cls x then counted n cls k (acc @ [x]) xs else None)"

text \<open>\<^verbatim>\<open>.\<close> under \<^verbatim>\<open>re.DOTALL\<close>, \<^verbatim>\<open>[0-9]\<close> and \<^verbatim>\<open>[0-9A-F]\<close>.\<close>

definition dot :: "byte \<Rightarrow> bool" where
  "dot c = True"

definition digit :: "byte \<Rightarrow> bool" where
  "digit c = (0x30 \<le> c \<and> c \<le> 0x39)"

definition upper_hex :: "byte \<Rightarrow> bool" where
  "upper_hex c = (0x30 \<le> c \<and> c \<le> 0x39 \<or> 0x41 \<le> c \<and> c \<le> 0x46)"

text \<open>
  \<^verbatim>\<open>$\<close> without \<^verbatim>\<open>re.MULTILINE\<close>: the end of the string, or just before a
  newline that ends it.
\<close>

definition dollar :: "bytes \<Rightarrow> unit option" where
  "dollar s = (if s = [] \<or> s = [0x0A] then Some () else None)"

text \<open>\<^verbatim>\<open>(?P<status>OK|Fail!)\<close>: the alternatives in their order.\<close>

definition status_group :: "(bytes \<Rightarrow> 'a option) \<Rightarrow> bytes \<Rightarrow> (bytes \<times> 'a) option" where
  "status_group k s =
     (case literal (ascii ''OK'') k s of
        Some r \<Rightarrow> Some (ascii ''OK'', r)
      | None \<Rightarrow> map_option (Pair (ascii ''Fail!'')) (literal (ascii ''Fail!'') k s))"

text \<open>
  \<^verbatim>\<open>_TEXT_COMPLETION_RE.search\<close>, for the pattern \<^verbatim>\<open>CMD (?:OK|Fail!)\<close>: a
  match at some position.
\<close>

fun search_from :: "(bytes \<Rightarrow> bool) \<Rightarrow> bytes \<Rightarrow> bool" where
  "search_from m [] = m []"
| "search_from m (x # xs) = (m (x # xs) \<or> search_from m xs)"

definition TEXT_COMPLETION_RE_search :: "bytes \<Rightarrow> bool" where
  "TEXT_COMPLETION_RE_search s =
     search_from (\<lambda>r. literal (ascii ''CMD '') (\<lambda>r. status_group Some r) r \<noteq> None) s"

text \<open>
  \<^verbatim>\<open>_TEXT_REPLY_FORMAT.search\<close>, for the pattern
  \<^verbatim>\<open>^(?P<message>.*)CKSM:(?P<checksum>[0-9A-F]{8})\r\nCMD (?P<status>OK|Fail!)\r\n$\<close>:
  the groups \<open>(message, checksum, status)\<close>. The pattern starts with \<^verbatim>\<open>^\<close>,
  so the search can only match at the start.
\<close>

definition TEXT_REPLY_FORMAT_search :: "bytes \<Rightarrow> (bytes \<times> bytes \<times> bytes) option" where
  "TEXT_REPLY_FORMAT_search s =
     map_option (\<lambda>(msg, checksum, status, fin). (msg, checksum, status))
       (greedy_star dot
          (literal (ascii ''CKSM:'')
             (counted 8 upper_hex
                (literal (crlf @ ascii ''CMD '') (status_group (literal crlf dollar))) []))
          [] s)"

text \<open>
  \<^verbatim>\<open>_MULTIRECORDS_FORMAT.search\<close>, for the pattern
  \<^verbatim>\<open>^(?P<message>.+\r\n)(?P<count>[0-9]+),(?P<checksum>[0-9A-F]{8})\r\n$\<close>: the groups
  \<open>(message, count, checksum)\<close>.
\<close>

definition MULTIRECORDS_FORMAT_search :: "bytes \<Rightarrow> (bytes \<times> bytes \<times> bytes) option" where
  "MULTIRECORDS_FORMAT_search s =
     map_option (\<lambda>(msg, count, checksum, fin). (msg @ crlf, count, checksum))
       (greedy_plus dot
          (literal crlf
             (greedy_plus digit
                (literal (ascii '','') (counted 8 upper_hex (literal crlf dollar) []))))
          s)"

subsection \<open>Text commands\<close>

lemma read_response_result:
  "read_response P depth s = Inr (m, s') \<Longrightarrow>
     \<exists>h. s' = s\<lparr>handle := h\<rparr> \<and> outbound h = outbound (handle s) \<and>
         length (inbound h) < length (inbound (handle s))"
proof (induction P depth s rule: read_response.induct)
  case (1 P depth s)
  from "1.prems" obtain X h where rd: "HidWrapper_read (handle s) = Inr (X, h)"
    by (subst (asm) read_response.simps) (auto split: sum.splits)
  then have h: "outbound h = outbound (handle s)" "length (inbound h) < length (inbound (handle s))"
    by (auto simp: HidWrapper_read_def split: list.splits)
  from "1.prems" rd obtain msg where msg: "response_message P s X = Inr msg"
    by (subst (asm) read_response.simps) (auto split: sum.splits)
  show ?case
  proof (cases "is_keepalive_response msg")
    case True
    then have room: "\<not> depth = 0"
      using "1.prems" rd msg by (subst (asm) read_response.simps) (auto split: if_splits)
    then have "read_response P (depth - 1) (s\<lparr>handle := h\<rparr>) = Inr (m, s')"
      using "1.prems" rd msg True by (subst (asm) read_response.simps) simp
    then obtain h' where "s' = s\<lparr>handle := h\<rparr>\<lparr>handle := h'\<rparr>" "outbound h' = outbound h"
      "length (inbound h') < length (inbound h)"
      using "1.IH" [OF rd refl msg True room] by auto
    then show ?thesis
      using h by (intro exI [of _ h']) simp
  next
    case False
    then have "s' = s\<lparr>handle := h\<rparr>"
      using "1.prems" rd msg by (subst (asm) read_response.simps) (auto split: if_splits)
    then show ?thesis
      using h by blast
  qed
qed

text \<open>
  The loop of \<^verbatim>\<open>_send_text_command_raw\<close>: it reads until the text read so far
  holds the completion pattern. Every turn takes a report from the device, so the loop
  ends on every finite list of reports (with \<open>ReadBlocked\<close> when they run out).
\<close>

function text_reply_loop :: "speck \<Rightarrow> nat \<Rightarrow> session \<Rightarrow> bytes \<Rightarrow> error + (bytes \<times> session)" where
  "text_reply_loop P depth s full_content =
     (case read_response P depth s of
        Inl e \<Rightarrow> Inl e
      | Inr ((mtype, content), s') \<Rightarrow>
          if mtype \<noteq> text_reply_message_type s'
          then Inl (CommandError (Content_does_not_match_expectations mtype content))
          else
            let full_content = full_content @ content in
            if TEXT_COMPLETION_RE_search full_content then Inr (full_content, s')
            else text_reply_loop P depth s' full_content)"
  by pat_completeness auto
termination
  by (relation "measure (\<lambda>(P, depth, s, full_content). length (inbound (handle s)))")
    (auto dest: read_response_result)

declare text_reply_loop.simps [simp del]

definition send_text_command_raw :: "speck \<Rightarrow> nat \<Rightarrow> session \<Rightarrow> bytes \<Rightarrow> error + (bytes \<times> session)" where
  "send_text_command_raw P depth s cmd =
     (case send_command P s (text_message_type s) cmd of
        Inl e \<Rightarrow> Inl e
      | Inr s1 \<Rightarrow>
          (case text_reply_loop P depth s1 [] of
             Inl e \<Rightarrow> Inl e
           | Inr (full_content, s2) \<Rightarrow>
               (case TEXT_REPLY_FORMAT_search full_content of
                  None \<Rightarrow> Inl (CommandError (Repr full_content))
                | Some (msg, checksum, status) \<Rightarrow>
                    (case verify_checksum msg checksum of
                       Inl e \<Rightarrow> Inl e
                     | Inr u \<Rightarrow>
                         if status \<noteq> ascii ''OK'' then Inl (CommandError (Repr msg))
                         else Inr (msg, s2)))))"

definition send_text_command :: "speck \<Rightarrow> nat \<Rightarrow> session \<Rightarrow> bytes \<Rightarrow> error + (str \<times> session)" where
  "send_text_command P depth s cmd =
     (case send_text_command_raw P depth s cmd of
        Inl e \<Rightarrow> Inl e
      | Inr (msg, s') \<Rightarrow> Inr (encoding s' msg, s'))"

text \<open>\<^verbatim>\<open>records_str.split("\r\n")\<close>, with the line read so far in \<open>line\<close>.\<close>

fun split_crlf :: "str \<Rightarrow> str \<Rightarrow> str list" where
  "split_crlf line (a # b # cs) =
     (if a = 13 \<and> b = 10 then line # split_crlf [] cs else split_crlf (line @ [a]) (b # cs))"
| "split_crlf line [a] = [line @ [a]]"
| "split_crlf line [] = [line]"

text \<open>
  \<^verbatim>\<open>query_multirecord\<close>. \<^verbatim>\<open>csv.reader\<close> is Python's: the model takes it
  as the parameter \<open>csv_reader\<close>, from the lines it is given to the records its
  iterator yields.
\<close>

definition query_multirecord ::
  "(str list \<Rightarrow> str list list) \<Rightarrow> speck \<Rightarrow> nat \<Rightarrow> session \<Rightarrow> bytes \<Rightarrow>
   error + (str list list \<times> session)" where
  "query_multirecord csv_reader P depth s cmd =
     (case send_text_command_raw P depth s cmd of
        Inl e \<Rightarrow> Inl e
      | Inr (msg, s') \<Rightarrow>
          if msg = ascii ''Log Empty'' @ crlf then Inr ([], s')
          else
            (case MULTIRECORDS_FORMAT_search msg of
               None \<Rightarrow> Inl (CommandError (Repr msg))
             | Some (records_raw, count, checksum) \<Rightarrow>
                 (case verify_checksum records_raw checksum of
                    Inl e \<Rightarrow> Inl e
                  | Inr u \<Rightarrow>
                      let records_str = encoding s' records_raw
                      in Inr (csv_reader (split_crlf [] records_str), s'))))"

text \<open>The two keys of a session, as the handshake leaves them.\<close>

definition session_keys :: "session \<Rightarrow> int option \<times> int option" where
  "session_keys s = (crypt_enc s, crypt_mac s)"

subsection \<open>Concrete sessions\<close>

text \<open>
  Stand-ins on which the model is run: primitives that leave the data alone, and sessions
  as \<^verbatim>\<open>Session(...)\<close> builds them, for a plain product and for the encrypted
  product \<^verbatim>\<open>0x3950\<close>, on a device that will deliver the given reports.
\<close>

definition stub_speck :: speck where
  "stub_speck =
     \<lparr>SpeckEncrypt_encrypt = (\<lambda>key iv data. data),
      SpeckEncrypt_decrypt = (\<lambda>key iv data. data),
      SpeckCMAC_sign = (\<lambda>key data. 0),
      SpeckCMAC_derive = (\<lambda>key label context. int_from_bytes_big context)\<rparr>"

definition plain_session :: "bytes list \<Rightarrow> session" where
  "plain_session reports =
     Session_init \<lparr>inbound = reports, outbound = []\<rparr> None 0x60 0x60 ascii_decode_replace"

definition encrypted_session :: "bytes list \<Rightarrow> session" where
  "encrypted_session reports =
     Session_init \<lparr>inbound = reports, outbound = []\<rparr> (Some 0x3950) 0x21 0x60 ascii_decode_replace"

text \<open>
  The encrypted session after a handshake has set its keys, and primitives whose tag is a
  given number and whose decryption shows the IV it was given.
\<close>

definition keyed_session :: "bytes list \<Rightarrow> session" where
  "keyed_session reports = (encrypted_session reports)\<lparr>crypt_enc := Some 1, crypt_mac := Some 2\<rparr>"

definition tagged_speck :: "int \<Rightarrow> speck" where
  "tagged_speck tag =
     stub_speck\<lparr>SpeckCMAC_sign := (\<lambda>key data. tag),
                SpeckEncrypt_decrypt :=
                  (\<lambda>key iv data. replicate (length data) (word_of_int (iv div 256)))\<rparr>"

text \<open>
  A reader for lines without quotes: the fields between the commas, and no field for an
  empty line. It stands for \<^verbatim>\<open>csv.reader\<close> where a record stream is run.
\<close>

fun csv_fields :: "str \<Rightarrow> str \<Rightarrow> str list" where
  "csv_fields field [] = [field]"
| "csv_fields field (c # cs) =
     (if c = 44 then field # csv_fields [] cs else csv_fields (field @ [c]) cs)"

definition unquoted_csv_reader :: "str list \<Rightarrow> str list list" where
  "unquoted_csv_reader lines = map (\<lambda>line. if line = [] then [] else csv_fields [] line) lines"

text \<open>
  The three reports of a device that answers the handshake of a driver whose random bytes
  are \<open>driver_rand\<close>, under the stand-in primitives: the serial number, the reader's
  challenge, and the reader's answer to the driver's challenge.
\<close>

definition handshake_reports :: "bytes \<Rightarrow> bytes list" where
  "handshake_reports driver_rand =
     [0x06 # 13 # ascii ''JGGX123-A0001'',
      0x33 # 16 # 0x16 # [1, 2, 3, 4, 5, 6, 7, 8] @ [0, 0, 0, 0, 0, 0, 1],
      0x33 # 32 # 0x18 # driver_rand @ [1, 2, 3, 4, 5, 6, 7, 8] @ [0, 0, 0, 0, 0, 0, 2] @
        [0, 0, 0, 0, 0, 0, 0, 0]]"

section \<open>Properties of the frame codec\<close>

lemma FREESTYLE_MESSAGE_build_ok:
  assumes "0 \<le> t" "t \<le> 255" "length p \<le> 62"
  shows "FREESTYLE_MESSAGE_build t p =
           Inr (0 # word_of_int t # word_of_nat (length p) # p @ replicate (62 - length p) 0)"
  using assms
  by (simp add: FREESTYLE_MESSAGE_build_def Const_Byte_build_def Byte_build_def
      Padded_build_def Prefixed_build_def)

lemma FREESTYLE_MESSAGE_build_fails:
  assumes "0 \<le> t" "t \<le> 255"
  shows "isl (FREESTYLE_MESSAGE_build t p) \<longleftrightarrow> 62 < length p"
  using assms
  by (auto simp: FREESTYLE_MESSAGE_build_def Const_Byte_build_def Byte_build_def
      Padded_build_def Prefixed_build_def)

lemma unat_length_byte: "n \<le> 255 \<Longrightarrow> unat (word_of_nat n :: byte) = n"
  by (simp add: unat_of_nat)

lemma uint_type_byte: "0 \<le> t \<Longrightarrow> t \<le> 255 \<Longrightarrow> uint (word_of_int t :: byte) = t"
  by (simp add: uint_word_of_int)

lemma FREESTYLE_MESSAGE_parse_frame:
  assumes "length p \<le> 62"
  shows "FREESTYLE_MESSAGE_parse (0 # t # word_of_nat (length p) # p @ replicate (62 - length p) 0) =
           Inr \<lparr>hid_report = 0, message_type = t, command = p\<rparr>"
  using assms
  by (simp add: FREESTYLE_MESSAGE_parse_def Const_Byte_parse_def Byte_parse_def
      Padded_parse_def Prefixed_parse_def unat_length_byte Let_def)

text \<open>
  C7. Frame round-trip and frame rejection: for a type in \<open>[0, 255]\<close> and a payload of
  at most 62 bytes, \<^verbatim>\<open>_FREESTYLE_MESSAGE.build\<close> gives a frame of 65 bytes that
  \<^verbatim>\<open>_FREESTYLE_MESSAGE.parse\<close> decodes to exactly the type and the payload; and
  the build raises if and only if the payload is longer than 62 bytes.
\<close>

theorem frame_roundtrip_and_rejection:
  assumes "0 \<le> t" "t \<le> 255"
  shows "(length p \<le> 62 \<longrightarrow>
            (\<exists>f m. FREESTYLE_MESSAGE_build t p = Inr f \<and> length f = 65 \<and>
                   FREESTYLE_MESSAGE_parse f = Inr m \<and>
                   uint (message_type m) = t \<and> command m = p \<and> hid_report m = 0)) \<and>
         (isl (FREESTYLE_MESSAGE_build t p) \<longleftrightarrow> 62 < length p)"
proof (intro conjI impI)
  assume len: "length p \<le> 62"
  let ?f = "0 # word_of_int t # word_of_nat (length p) # p @ replicate (62 - length p) 0 :: bytes"
  let ?m = "\<lparr>hid_report = 0, message_type = word_of_int t, command = p\<rparr>"
  have "FREESTYLE_MESSAGE_build t p = Inr ?f"
    using assms len by (rule FREESTYLE_MESSAGE_build_ok)
  moreover have "length ?f = 65"
    using len by simp
  moreover have "FREESTYLE_MESSAGE_parse ?f = Inr ?m"
    using len by (rule FREESTYLE_MESSAGE_parse_frame)
  moreover have "uint (message_type ?m) = t"
    using assms by (simp add: uint_type_byte)
  ultimately show "\<exists>f m. FREESTYLE_MESSAGE_build t p = Inr f \<and> length f = 65 \<and>
      FREESTYLE_MESSAGE_parse f = Inr m \<and> uint (message_type m) = t \<and> command m = p \<and>
      hid_report m = 0"
    by (intro exI [of _ ?f] exI [of _ ?m]) simp
next
  show "isl (FREESTYLE_MESSAGE_build t p) \<longleftrightarrow> 62 < length p"
    using assms by (rule FREESTYLE_MESSAGE_build_fails)
qed

theorem frame_roundtrip_and_rejection_witness:
  "FREESTYLE_MESSAGE_build 0x60 [0x24, 0x64, 0x62] =
     Inr (0 # 0x60 # 3 # [0x24, 0x64, 0x62] @ replicate 59 0) \<and>
   FREESTYLE_MESSAGE_parse (0 # 0x60 # 3 # [0x24, 0x64, 0x62] @ replicate 59 0) =
     Inr \<lparr>hid_report = 0, message_type = 0x60, command = [0x24, 0x64, 0x62]\<rparr> \<and>
   \<not> isl (FREESTYLE_MESSAGE_build 0x60 [0x24, 0x64, 0x62]) \<and>
   isl (FREESTYLE_MESSAGE_build 0x60 (replicate 63 0x41))"
  using frame_roundtrip_and_rejection [of "0x60" "[0x24, 0x64, 0x62]"]
    frame_roundtrip_and_rejection [of "0x60" "replicate 63 0x41"]
  by (simp add: FREESTYLE_MESSAGE_build_ok FREESTYLE_MESSAGE_parse_def Const_Byte_parse_def
      Byte_parse_def Padded_parse_def Prefixed_parse_def Let_def)

section \<open>Properties of the session\<close>

lemma in_always_unencrypted:
  "t \<in> set ALWAYS_UNENCRYPTED_MESSAGES \<Longrightarrow> 0 \<le> t \<and> t \<le> 255"
  by (auto simp: ALWAYS_UNENCRYPTED_MESSAGES_def INIT_COMMAND_def INIT_RESPONSE_def
      KEEPALIVE_RESPONSE_def ENCRYPTION_SETUP_COMMAND_def ENCRYPTION_SETUP_RESPONSE_def)

text \<open>
  C4. Always-unencrypted exemption: for a type of \<^verbatim>\<open>_ALWAYS_UNENCRYPTED_MESSAGES\<close>
  and a payload of at most 62 bytes, \<^verbatim>\<open>send_command\<close> writes exactly the frame
  that \<^verbatim>\<open>_FREESTYLE_MESSAGE.build\<close> gives, whatever the session is: on the
  encrypted protocol too, and with or without keys.
\<close>

theorem unencrypted_exemption:
  assumes "t \<in> set ALWAYS_UNENCRYPTED_MESSAGES" "length p \<le> 62"
  shows "\<exists>f. FREESTYLE_MESSAGE_build t p = Inr f \<and>
             send_command P s t p =
               Inr (s\<lparr>handle := (handle s)\<lparr>outbound := outbound (handle s) @ [f]\<rparr>\<rparr>)"
proof -
  have "0 \<le> t" "t \<le> 255"
    using assms(1) in_always_unencrypted by blast+
  then obtain f where f: "FREESTYLE_MESSAGE_build t p = Inr f"
    using assms(2) FREESTYLE_MESSAGE_build_ok by blast
  then have "send_command P s t p =
      Inr (s\<lparr>handle := (handle s)\<lparr>outbound := outbound (handle s) @ [f]\<rparr>\<rparr>)"
    using assms(1) by (simp add: send_command_def HidWrapper_write_def)
  with f show ?thesis by blast
qed

lemma decrypt_message_handle:
  "decrypt_message P (s\<lparr>handle := h\<rparr>) X = decrypt_message P s X"
  by (simp add: decrypt_message_def cong: if_cong sum.case_cong option.case_cong)

lemma response_message_handle:
  "response_message P (s\<lparr>handle := h\<rparr>) X = response_message P s X"
  by (simp add: response_message_def decrypt_message_handle cong: if_cong)

lemma is_keepalive_response_iff: "is_keepalive_response (t, c) \<longleftrightarrow> t = 0x22"
  by (simp add: is_keepalive_response_def create_matcher_def KEEPALIVE_RESPONSE_def)

lemma is_unknown_message_error_iff: "is_unknown_message_error (t, c) \<longleftrightarrow> t = 0x30 \<and> c = [0x85]"
  by (auto simp: is_unknown_message_error_def create_matcher_def UNKNOWN_MESSAGE_RESPONSE_def)

lemma is_encryption_missing_error_iff:
  "is_encryption_missing_error (t, c) \<longleftrightarrow> t = 0x33 \<and> c = [0x15]"
  by (auto simp: is_encryption_missing_error_def create_matcher_def ENCRYPTION_SETUP_RESPONSE_def)

lemma is_encryption_setup_error_iff:
  "is_encryption_setup_error (t, c) \<longleftrightarrow> t = 0x33 \<and> c = [0x14]"
  by (auto simp: is_encryption_setup_error_def create_matcher_def ENCRYPTION_SETUP_RESPONSE_def)

lemmas matcher_iffs = is_keepalive_response_iff is_unknown_message_error_iff
  is_encryption_missing_error_iff is_encryption_setup_error_iff

lemma read_response_unfold:
  assumes "inbound (handle s) = X # rest"
  shows "read_response P depth s =
     (case response_message P s X of
        Inl e \<Rightarrow> Inl e
      | Inr msg \<Rightarrow>
          if is_keepalive_response msg
            then if depth = 0 then Inl RecursionError
                 else read_response P (depth - 1) (s\<lparr>handle := (handle s)\<lparr>inbound := rest\<rparr>\<rparr>)
          else if is_unknown_message_error msg then Inl (CommandError Invalid_command)
          else if is_encryption_missing_error msg
            then Inl (CommandError Device_encryption_not_initialized)
          else if is_encryption_setup_error msg
            then Inl (CommandError Device_encryption_initialization_failed)
          else Inr (msg, s\<lparr>handle := (handle s)\<lparr>inbound := rest\<rparr>\<rparr>))"
  using assms
  by (subst read_response.simps) (simp add: HidWrapper_read_def split: sum.split)

lemma keepalive_packet_message:
  assumes "2 \<le> length k" "k ! 0 = 0x22"
  shows "\<exists>c. response_message P s k = Inr (0x22, c)"
  using assms
  by (auto simp: response_message_def Let_def ALWAYS_UNENCRYPTED_MESSAGES_def
      KEEPALIVE_RESPONSE_def)

lemma read_response_skips_keepalive:
  assumes "inbound (handle s) = k # rest" "2 \<le> length k" "k ! 0 = 0x22" "0 < depth"
  shows "read_response P depth s =
           read_response P (depth - 1) (s\<lparr>handle := (handle s)\<lparr>inbound := rest\<rparr>\<rparr>)"
proof -
  obtain c where "response_message P s k = Inr (0x22, c)"
    using keepalive_packet_message [OF assms(2,3)] by blast
  then show ?thesis
    using assms(4) by (simp add: read_response_unfold [OF assms(1)] is_keepalive_response_iff)
qed

lemma read_response_keepalive_no_room:
  assumes "inbound (handle s) = k # rest" "2 \<le> length k" "k ! 0 = 0x22"
  shows "read_response P 0 s = Inl RecursionError"
proof -
  obtain c where "response_message P s k = Inr (0x22, c)"
    using keepalive_packet_message [OF assms(2,3)] by blast
  then show ?thesis
    by (simp add: read_response_unfold [OF assms(1)] is_keepalive_response_iff)
qed

lemma read_response_skips_keepalives:
  assumes "inbound (handle s) = ks @ rest" "\<forall>k\<in>set ks. 2 \<le> length k \<and> k ! 0 = 0x22"
    "length ks \<le> depth"
  shows "read_response P depth s =
           read_response P (depth - length ks) (s\<lparr>handle := (handle s)\<lparr>inbound := rest\<rparr>\<rparr>)"
  using assms
proof (induction ks arbitrary: s depth)
  case Nil
  then have "s\<lparr>handle := (handle s)\<lparr>inbound := rest\<rparr>\<rparr> = s"
    by simp
  then show ?case by simp
next
  case (Cons k ks)
  let ?s1 = "s\<lparr>handle := (handle s)\<lparr>inbound := ks @ rest\<rparr>\<rparr>"
  have "read_response P depth s = read_response P (depth - 1) ?s1"
    using Cons.prems by (intro read_response_skips_keepalive [where k = k]) auto
  also have "\<dots> = read_response P (depth - 1 - length ks)
      (?s1\<lparr>handle := (handle ?s1)\<lparr>inbound := rest\<rparr>\<rparr>)"
    using Cons.prems by (intro Cons.IH) auto
  finally show ?case by simp
qed

lemma keepalives_exhaust_stack:
  assumes "inbound (handle s) = ks @ rest" "\<forall>k\<in>set ks. 2 \<le> length k \<and> k ! 0 = 0x22"
    "depth < length ks"
  shows "read_response P depth s = Inl RecursionError"
  using assms
proof (induction ks arbitrary: s depth)
  case Nil
  then show ?case by simp
next
  case (Cons k ks)
  show ?case
  proof (cases "depth = 0")
    case True
    then show ?thesis
      using Cons.prems by (simp add: read_response_keepalive_no_room [where k = k])
  next
    case False
    let ?s1 = "s\<lparr>handle := (handle s)\<lparr>inbound := ks @ rest\<rparr>\<rparr>"
    have "read_response P depth s = read_response P (depth - 1) ?s1"
      using Cons.prems False by (intro read_response_skips_keepalive [where k = k]) auto
    also have "\<dots> = Inl RecursionError"
      using Cons.prems False by (intro Cons.IH) auto
    finally show ?thesis .
  qed
qed

text \<open>
  Keep-alive transparency, as far as the stack goes: when the device delivers keep-alive
  packets (type \<open>0x22\<close>, with a length byte), no more of them than the stack has room
  for nested calls, and then a packet \<open>X\<close>, \<^verbatim>\<open>read_response\<close> does what it
  does when \<open>X\<close> comes first; and when \<open>X\<close> carries a message that is neither a
  keep-alive nor one of the three error messages, that message is returned, with the
  reports after \<open>X\<close> still to be read.
\<close>

lemma keepalive_transparency_within_depth:
  assumes "inbound (handle s) = ks @ X # rest" "\<forall>k\<in>set ks. 2 \<le> length k \<and> k ! 0 = 0x22"
    "length ks \<le> depth"
  shows "read_response P depth s =
           read_response P (depth - length ks)
             (s\<lparr>handle := (handle s)\<lparr>inbound := X # rest\<rparr>\<rparr>) \<and>
         (\<forall>m. response_message P s X = Inr m \<and> \<not> is_keepalive_response m \<and>
               \<not> is_unknown_message_error m \<and> \<not> is_encryption_missing_error m \<and>
               \<not> is_encryption_setup_error m \<longrightarrow>
               read_response P depth s = Inr (m, s\<lparr>handle := (handle s)\<lparr>inbound := rest\<rparr>\<rparr>))"
proof -
  let ?sX = "s\<lparr>handle := (handle s)\<lparr>inbound := X # rest\<rparr>\<rparr>"
  have skip: "read_response P depth s = read_response P (depth - length ks) ?sX"
    using assms by (rule read_response_skips_keepalives)
  have "read_response P (depth - length ks) ?sX =
      Inr (m, s\<lparr>handle := (handle s)\<lparr>inbound := rest\<rparr>\<rparr>)"
    if "response_message P s X = Inr m" "\<not> is_keepalive_response m"
      "\<not> is_unknown_message_error m" "\<not> is_encryption_missing_error m"
      "\<not> is_encryption_setup_error m" for m
    using that by (simp add: read_response_unfold [where X = X and rest = rest] response_message_handle)
  with skip show ?thesis by simp
qed

text \<open>
  C6. Classification: a packet whose message \<open>(t, c)\<close> is not a keep-alive makes
  \<^verbatim>\<open>read_response\<close> raise \<^verbatim>\<open>CommandError\<close> with the text of an
  invalid command for \<open>(0x30, 0x85)\<close>, of encryption not initialized for
  \<open>(0x33, 0x15)\<close>, of a failed encryption setup for \<open>(0x33, 0x14)\<close>, and
  return \<open>(t, c)\<close> in every other case.
\<close>

theorem response_classification:
  assumes "inbound (handle s) = X # rest" "response_message P s X = Inr (t, c)" "t \<noteq> 0x22"
  shows "read_response P depth s =
     (if t = 0x30 \<and> c = [0x85] then Inl (CommandError Invalid_command)
      else if t = 0x33 \<and> c = [0x15] then Inl (CommandError Device_encryption_not_initialized)
      else if t = 0x33 \<and> c = [0x14] then Inl (CommandError Device_encryption_initialization_failed)
      else Inr ((t, c), s\<lparr>handle := (handle s)\<lparr>inbound := rest\<rparr>\<rparr>))"
  using assms(2,3) by (simp add: read_response_unfold [OF assms(1)] matcher_iffs)

lemma slice_beyond: "length xs \<le> j \<Longrightarrow> slice i j xs = drop i xs"
  by (simp add: slice_def)

text \<open>
  C10. Short packets: when the length byte of a packet (after any decryption) is larger
  than the number of bytes that follow it, the payload extraction does not fail: the
  message carries all the bytes after the length byte, and \<^verbatim>\<open>read_response\<close>
  returns it unless it is a keep-alive or an error message.
\<close>

theorem short_packet_payload:
  assumes "inbound (handle s) = X # rest" "X \<noteq> []"
    "(if encrypted_protocol s \<and> uint (X ! 0) \<notin> set ALWAYS_UNENCRYPTED_MESSAGES
      then decrypt_message P s X else Inr X) = Inr pkt"
    "2 \<le> length pkt" "length pkt - 2 < unat (pkt ! 1)"
  shows "response_message P s X = Inr (uint (X ! 0), drop 2 pkt) \<and>
         (\<not> is_keepalive_response (uint (X ! 0), drop 2 pkt) \<and>
          \<not> is_unknown_message_error (uint (X ! 0), drop 2 pkt) \<and>
          \<not> is_encryption_missing_error (uint (X ! 0), drop 2 pkt) \<and>
          \<not> is_encryption_setup_error (uint (X ! 0), drop 2 pkt) \<longrightarrow>
          read_response P depth s =
            Inr ((uint (X ! 0), drop 2 pkt), s\<lparr>handle := (handle s)\<lparr>inbound := rest\<rparr>\<rparr>))"
proof -
  have "slice 2 (2 + unat (pkt ! 1)) pkt = drop 2 pkt"
    using assms(4,5) by (intro slice_beyond) simp
  then have msg: "response_message P s X = Inr (uint (X ! 0), drop 2 pkt)"
    using assms(2,3,4) by (simp add: response_message_def Let_def)
  then show ?thesis
    by (simp add: read_response_unfold [OF assms(1)])
qed

lemma upt_0_8: "[0..<8] = [0, 1, 2, 3, 4, 5, 6, 7::nat]"
  by (simp add: upt_rec)
lemma upt_0_4: "[0..<4] = [0, 1, 2, 3::nat]"
  by (simp add: upt_rec)

lemma int_to_bytes_little_8_high:
  assumes "0 \<le> v" "v < 2 ^ 64"
  shows "\<exists>mac8. int_to_bytes_little 8 v = Inr mac8 \<and>
           Inr (drop 4 mac8) = int_to_bytes_little 4 (v div 2 ^ 32)"
proof -
  have "v div 2 ^ 32 < 2 ^ 32"
    using assms by (simp add: div_less_iff_less_mult flip: power_add) 
  moreover have "0 \<le> v div 2 ^ 32"
    using assms by simp
  moreover have "v div 2 ^ 32 div 256 ^ k = v div 256 ^ (4 + k)" for k
    by (simp add: power_add zdiv_zmult2_eq)
  ultimately show ?thesis
    using assms by (simp add: int_to_bytes_little_def upt_0_8 upt_0_4)
qed

text \<open>
  C1, as amended. With both keys installed and a tag of 64 bits,
  \<^verbatim>\<open>decrypt_message\<close> compares the high four bytes of the tag of
  \<open>packet[0..60)\<close>, in little-endian order (bytes 4..8 of its little-endian
  encoding), with \<open>packet[60..64)\<close>; it raises \<^verbatim>\<open>AssertionError\<close> when they
  differ, and otherwise returns the packet with bytes \<open>[1..56)\<close> decrypted under the
  IV \<open>u32_be(packet[56..60)) << 8\<close>.
\<close>

theorem decrypt_message_verifies_then_decrypts:
  assumes "crypt_mac s = Some mac_key" "crypt_enc s = Some enc_key"
    "0 \<le> SpeckCMAC_sign P mac_key (take 60 packet)"
    "SpeckCMAC_sign P mac_key (take 60 packet) < 2 ^ 64"
  shows "decrypt_message P s packet =
     (if int_to_bytes_little 4 (SpeckCMAC_sign P mac_key (take 60 packet) div 2 ^ 32) =
           Inr (slice 60 64 packet)
      then Inr (take 1 packet @
                SpeckEncrypt_decrypt P enc_key
                  (int_from_bytes_big (slice 56 60 packet) * 2 ^ 8) (slice 1 56 packet) @
                drop 56 packet)
      else Inl AssertionError)"
proof -
  obtain mac8 where m: "int_to_bytes_little 8 (SpeckCMAC_sign P mac_key (take 60 packet)) = Inr mac8"
    "Inr (drop 4 mac8) = int_to_bytes_little 4 (SpeckCMAC_sign P mac_key (take 60 packet) div 2 ^ 32)"
    using int_to_bytes_little_8_high [OF assms(3,4)] by blast
  show ?thesis
    using assms(1,2) m(1) m(2) [symmetric] by (simp add: decrypt_message_def slice_assign_def)
qed

text \<open>
  C3, as amended. An outbound frame has 65 bytes: byte 0 is the report id 0, byte 1 the
  type, byte 2 the payload length \<open>L\<close>, bytes \<open>3..3+L\<close> the payload, the rest
  zero. An inbound packet has no report-id byte: \<^verbatim>\<open>read_response\<close> takes the
  type from byte 0, the length from byte 1 and the payload from bytes \<open>2..2+L\<close>, so
  that the frame without its first byte is read back as the type and the payload.
\<close>

theorem frame_layout_outbound_and_inbound:
  assumes "0 \<le> t" "t \<le> 255" "length p \<le> 62"
  shows "\<exists>f. FREESTYLE_MESSAGE_build t p = Inr f \<and> length f = 65 \<and>
             f ! 0 = 0 \<and> uint (f ! 1) = t \<and> unat (f ! 2) = length p \<and>
             slice 3 (3 + length p) f = p \<and>
             drop (3 + length p) f = replicate (62 - length p) 0 \<and>
             (\<not> (encrypted_protocol s \<and> t \<notin> set ALWAYS_UNENCRYPTED_MESSAGES) \<longrightarrow>
                response_message P s (tl f) = Inr (t, p))"
proof -
  let ?f = "0 # word_of_int t # word_of_nat (length p) # p @ replicate (62 - length p) 0 :: bytes"
  have b: "FREESTYLE_MESSAGE_build t p = Inr ?f"
    using assms by (rule FREESTYLE_MESSAGE_build_ok)
  have ut: "uint (word_of_int t :: byte) = t"
    using assms(1,2) by (rule uint_type_byte)
  have ul: "unat (word_of_nat (length p) :: byte) = length p"
    using assms(3) by (simp add: unat_length_byte)
  have "response_message P s (tl ?f) = Inr (t, p)"
    if "\<not> (encrypted_protocol s \<and> t \<notin> set ALWAYS_UNENCRYPTED_MESSAGES)"
    using that ut ul by (auto simp: response_message_def Let_def slice_def)
  moreover have "length ?f = 65" "?f ! 0 = 0" "uint (?f ! 1) = t" "unat (?f ! 2) = length p"
    "slice 3 (3 + length p) ?f = p" "drop (3 + length p) ?f = replicate (62 - length p) 0"
    using assms(3) ut ul by (simp_all add: slice_def eval_nat_numeral)
  ultimately show ?thesis
    using b by blast
qed

theorem frame_layout_outbound_and_inbound_witness:
  "FREESTYLE_MESSAGE_build 0x60 [0x4F, 0x4B] = Inr (0 # 0x60 # 2 # 0x4F # 0x4B # replicate 60 0) \<and>
   response_message stub_speck (plain_session []) (0x60 # 2 # 0x4F # 0x4B # replicate 60 0) =
     Inr (0x60, [0x4F, 0x4B])"
  using frame_layout_outbound_and_inbound [of "0x60" "[0x4F, 0x4B]" "plain_session []" stub_speck]
  by (simp add: FREESTYLE_MESSAGE_build_ok plain_session_def Session_init_def)

text \<open>
  The claim C3 as stated fails: a 65-byte frame in the outbound layout, delivered as an
  inbound packet, is read as type 0 with the 63 bytes after byte 1 as payload.
\<close>

theorem inbound_layout_counterexample:
  "FREESTYLE_MESSAGE_build 0x71 [0x01] = Inr (0 # 0x71 # 1 # 1 # replicate 61 0) \<and>
   read_response stub_speck 10 (plain_session [0 # 0x71 # 1 # 1 # replicate 61 0]) =
     Inr ((0, 1 # 1 # replicate 61 0), plain_session []) \<and>
   read_response stub_speck 10 (plain_session [0 # 0x71 # 1 # 1 # replicate 61 0]) \<noteq>
     Inr ((0x71, [0x01]), plain_session [])"
proof -
  have "read_response stub_speck 10 (plain_session [0 # 0x71 # 1 # 1 # replicate 61 0]) =
     Inr ((0, 1 # 1 # replicate 61 0), plain_session [])"
    by (subst read_response_unfold [where X = "0 # 0x71 # 1 # 1 # replicate 61 0" and rest = "[]"])
      (simp_all add: plain_session_def Session_init_def response_message_def slice_def
        matcher_iffs)
  then show ?thesis
    by (simp add: FREESTYLE_MESSAGE_build_ok)
qed

theorem unencrypted_exemption_witness:
  "0x14 \<in> set ALWAYS_UNENCRYPTED_MESSAGES \<and> encrypted_protocol (encrypted_session []) \<and>
   send_command stub_speck (encrypted_session []) 0x14 [0x11] =
     Inr ((encrypted_session [])\<lparr>handle := \<lparr>inbound = [],
            outbound = [0 # 0x14 # 1 # 0x11 # replicate 61 0]\<rparr>\<rparr>)"
  using unencrypted_exemption [of "0x14" "[0x11]" stub_speck "encrypted_session []"]
  by (simp add: FREESTYLE_MESSAGE_build_ok ALWAYS_UNENCRYPTED_MESSAGES_def
      ENCRYPTION_SETUP_COMMAND_def encrypted_session_def Session_init_def)

lemma keepalive_transparency_within_depth_example:
  "read_response stub_speck 10
     (plain_session [[0x22, 1, 0], [0x22, 0], [0x60, 2, 0x4F, 0x4B], [0x60, 0]]) =
   Inr ((0x60, [0x4F, 0x4B]), plain_session [[0x60, 0]])"
  using keepalive_transparency_within_depth [where P = stub_speck and depth = 10
      and s = "plain_session [[0x22, 1, 0], [0x22, 0], [0x60, 2, 0x4F, 0x4B], [0x60, 0]]"
      and ks = "[[0x22, 1, 0], [0x22, 0]]" and X = "[0x60, 2, 0x4F, 0x4B]"
      and rest = "[[0x60, 0]]", THEN conjunct2]
  by (simp add: plain_session_def Session_init_def response_message_def slice_def matcher_iffs)

text \<open>
  C5. Keep-alive transparency does not hold regardless of the count: with room for 999
  nested calls, which is more than Python's limit of 1000 frames leaves to any caller,
  \<^verbatim>\<open>read_response\<close> returns the message of a packet that comes first, and raises
  \<^verbatim>\<open>RecursionError\<close> when 1000 keep-alives come before that packet.
\<close>

theorem keepalive_recursion_limit:
  "read_response stub_speck 999 (plain_session [[0x60, 2, 0x4F, 0x4B]]) =
     Inr ((0x60, [0x4F, 0x4B]), plain_session []) \<and>
   read_response stub_speck 999
     (plain_session (replicate 1000 [0x22, 0] @ [[0x60, 2, 0x4F, 0x4B]])) =
     Inl RecursionError"
proof
  show "read_response stub_speck 999 (plain_session [[0x60, 2, 0x4F, 0x4B]]) =
      Inr ((0x60, [0x4F, 0x4B]), plain_session [])"
    by (subst read_response_unfold [where X = "[0x60, 2, 0x4F, 0x4B]" and rest = "[]"])
      (simp_all add: plain_session_def Session_init_def response_message_def slice_def
        matcher_iffs)
  show "read_response stub_speck 999
      (plain_session (replicate 1000 [0x22, 0] @ [[0x60, 2, 0x4F, 0x4B]])) = Inl RecursionError"
    by (rule keepalives_exhaust_stack [where ks = "replicate 1000 [0x22, 0]"
          and rest = "[[0x60, 2, 0x4F, 0x4B]]"])
      (simp_all add: plain_session_def Session_init_def)
qed

theorem response_classification_witness:
  "read_response stub_speck 10 (plain_session [[0x30, 1, 0x85]]) = Inl (CommandError Invalid_command) \<and>
   read_response stub_speck 10 (plain_session [[0x33, 1, 0x15]]) =
     Inl (CommandError Device_encryption_not_initialized) \<and>
   read_response stub_speck 10 (plain_session [[0x33, 1, 0x14]]) =
     Inl (CommandError Device_encryption_initialization_failed) \<and>
   read_response stub_speck 10 (plain_session [[0x30, 2, 0x85, 0]]) =
     Inr ((0x30, [0x85, 0]), plain_session [])"
  using response_classification [of "plain_session [[0x30, 1, 0x85]]" "[0x30, 1, 0x85]" "[]" stub_speck "0x30" "[0x85]" 10]
    response_classification [of "plain_session [[0x33, 1, 0x15]]" "[0x33, 1, 0x15]" "[]" stub_speck "0x33" "[0x15]" 10]
    response_classification [of "plain_session [[0x33, 1, 0x14]]" "[0x33, 1, 0x14]" "[]" stub_speck "0x33" "[0x14]" 10]
    response_classification [of "plain_session [[0x30, 2, 0x85, 0]]" "[0x30, 2, 0x85, 0]" "[]" stub_speck "0x30" "[0x85, 0]" 10]
  by (simp add: plain_session_def Session_init_def response_message_def slice_def)

theorem short_packet_payload_witness:
  "read_response stub_speck 10 (plain_session [[0x60, 0x3E, 0x4F, 0x4B]]) =
     Inr ((0x60, [0x4F, 0x4B]), plain_session [])"
  using short_packet_payload [of "plain_session [[0x60, 0x3E, 0x4F, 0x4B]]" "[0x60, 0x3E, 0x4F, 0x4B]"
      "[]" stub_speck "[0x60, 0x3E, 0x4F, 0x4B]" 10]
  by (simp add: plain_session_def Session_init_def matcher_iffs)

lemmas example_defs = keyed_session_def encrypted_session_def plain_session_def
  Session_init_def tagged_speck_def stub_speck_def

theorem decrypt_message_verifies_then_decrypts_witness:
  "decrypt_message (tagged_speck 0x0403020100000000) (keyed_session [])
     (0x30 # replicate 55 0xAA @ [0, 0, 0, 5, 1, 2, 3, 4]) =
   Inr (0x30 # replicate 55 5 @ [0, 0, 0, 5, 1, 2, 3, 4])"
  using decrypt_message_verifies_then_decrypts [of "keyed_session []" 2 1
      "tagged_speck 0x0403020100000000" "0x30 # replicate 55 0xAA @ [0, 0, 0, 5, 1, 2, 3, 4]"]
  by (simp add: example_defs int_to_bytes_little_def slice_def int_from_bytes_big_def upt_0_4)

text \<open>
  The claim C1 as stated fails: with the tag 1, whose little-endian encoding is
  \<open>01 00 00 00 00 00 00 00\<close>, a packet that carries the low four bytes
  \<open>01 00 00 00\<close> at \<open>[60..64)\<close> is refused, and a packet that carries
  \<open>00 00 00 00\<close> there is accepted.
\<close>

theorem mac_low_bytes_counterexample:
  "int_to_bytes_little 8 1 = Inr [1, 0, 0, 0, 0, 0, 0, 0] \<and>
   slice 60 64 (replicate 60 0 @ [1, 0, 0, 0]) = take 4 [1, 0, 0, 0, 0, 0, 0, 0 :: byte] \<and>
   decrypt_message (tagged_speck 1) (keyed_session []) (replicate 60 0 @ [1, 0, 0, 0]) =
     Inl AssertionError \<and>
   slice 60 64 (replicate 64 0) \<noteq> take 4 [1, 0, 0, 0, 0, 0, 0, 0 :: byte] \<and>
   decrypt_message (tagged_speck 1) (keyed_session []) (replicate 64 0) = Inr (replicate 64 0)"
  by (simp add: example_defs decrypt_message_def int_to_bytes_little_def slice_def
      slice_assign_def int_from_bytes_big_def upt_0_8 eval_nat_numeral)

section \<open>Properties of the checksum\<close>

lemma hex_digit_value_upper:
  assumes "0 \<le> d" "d < 16"
  shows "hex_digit_value (hex_digit_upper d) = Some d"
proof (cases "d < 10")
  case True
  then have "uint (word_of_int (0x30 + d) :: byte) = 0x30 + d"
    using assms unfolding uint_word_of_int by simp
  then show ?thesis
    using True assms by (simp add: hex_digit_value_def hex_digit_upper_def word_le_def)
next
  case False
  then have "uint (word_of_int (0x41 + (d - 10)) :: byte) = 0x41 + (d - 10)"
    using assms unfolding uint_word_of_int by simp
  then show ?thesis
    using False assms by (simp add: hex_digit_value_def hex_digit_upper_def word_le_def)
qed

lemma hex_digit_plain:
  assumes "hex_digit_value c = Some d"
  shows "\<not> is_space c" "c \<noteq> 0x2B" "c \<noteq> 0x2D" "c \<noteq> 0x5F" "c \<noteq> 0x78" "c \<noteq> 0x58"
  using assms
  by (auto simp: hex_digit_value_def is_space_def word_le_def split: if_splits)

lemma scan_digits_upper:
  assumes "prev \<noteq> 0x5F"
  shows "scan_digits acc prev digits (map (\<lambda>k. hex_digit_upper (n div 16 ^ k mod 16)) ks) =
     Some (foldl (\<lambda>acc k. acc * 16 + n div 16 ^ k mod 16) acc ks, digits + length ks, [])"
  using assms
proof (induction ks arbitrary: acc prev digits)
  case Nil
  then show ?case by simp
next
  case (Cons k ks)
  let ?c = "hex_digit_upper (n div 16 ^ k mod 16)"
  have v: "hex_digit_value ?c = Some (n div 16 ^ k mod 16)"
    by (rule hex_digit_value_upper) simp_all
  then have "?c \<noteq> 0x5F"
    by (rule hex_digit_plain)
  then show ?case
    using v by (simp add: Cons.IH)
qed

lemma digits_value:
  fixes n acc :: int
  shows "foldl (\<lambda>acc k. acc * 16 + n div 16 ^ k mod 16) acc (rev [0..<m]) =
           acc * 16 ^ m + n mod 16 ^ m"
proof (induction m arbitrary: acc)
  case 0
  show ?case by simp
next
  case (Suc m)
  have "n mod (16 * 16 ^ m) = 16 ^ m * (n div 16 ^ m mod 16) + n mod 16 ^ m"
    using zmod_zmult2_eq [of 16 n "16 ^ m"] by (simp add: mult.commute)
  then show ?case
    by (simp add: Suc.IH algebra_simps)
qed

lemma hex8_upt: "hex8 n = map (\<lambda>k. hex_digit_upper (n div 16 ^ k mod 16)) (rev [0..<8])"
  by (simp add: hex8_def upt_rec)

lemma int_base16_hex8: "int_base16 (hex8 n) = Inr (n mod 2 ^ 32)"
proof -
  define c where "c k = hex_digit_upper (n div 16 ^ k mod 16)" for k
  have v: "hex_digit_value (c k) = Some (n div 16 ^ k mod 16)" for k
    unfolding c_def by (rule hex_digit_value_upper) simp_all
  have plain: "\<not> is_space (c 7)" "c 7 \<noteq> 0x2B" "c 7 \<noteq> 0x2D" "c 7 \<noteq> 0x5F" "c 6 \<noteq> 0x78"
    "c 6 \<noteq> 0x58"
    using hex_digit_plain [OF v] by blast+
  have h: "hex8 n = c 7 # c 6 # [c 5, c 4, c 3, c 2, c 1, c 0]"
    by (simp add: hex8_def c_def)
  have "scan_digits 0 0 0 (hex8 n) = Some (n mod 16 ^ 8, 8, [])"
    unfolding hex8_upt by (subst scan_digits_upper) (simp_all add: digits_value)
  then have "scan_digits 0 0 0 (c 7 # c 6 # [c 5, c 4, c 3, c 2, c 1, c 0]) =
      Some (n mod 2 ^ 32, 8, [])"
    unfolding h by simp
  then show ?thesis
    unfolding h int_base16_def using plain by (simp add: Let_def)
qed

lemma sum_list_uint_update:
  "i < length s \<Longrightarrow>
     sum_list (map uint (s[i := b])) = sum_list (map uint s) - uint (s ! i) + uint b"
proof (induction s arbitrary: i)
  case Nil
  then show ?case by simp
next
  case (Cons a s)
  then show ?case by (cases i) simp_all
qed

lemma sum_list_uint_nonneg: "0 \<le> sum_list (map uint (s :: bytes))"
  by (induction s) simp_all

lemma mod_shift_small:
  fixes a d :: int
  assumes "a mod 2 ^ 32 = a + d" "- 256 < d" "d < 256"
  shows "d = 0"
proof (rule ccontr)
  assume nz: "d \<noteq> 0"
  have "(a + d) mod 2 ^ 32 = a mod 2 ^ 32"
    using assms(1) [symmetric] by simp
  then have "(2 ^ 32 :: int) dvd (a + d) - a"
    by (simp only: mod_eq_dvd_iff)
  then have "(2 ^ 32 :: int) dvd d"
    by simp
  then have "\<bar>2 ^ 32 :: int\<bar> \<le> \<bar>d\<bar>"
    using nz by (intro dvd_imp_le_int) 
  then show False
    using assms(2,3) by simp
qed

text \<open>
  C2, as amended. For a byte string whose bytes sum to less than \<open>2 ^ 32\<close>, the
  verification against the eight hexadecimal digits of the sum succeeds; and for every byte
  string, the verification of any single-byte mutation against the digits of the sum modulo
  \<open>2 ^ 32\<close> raises \<^verbatim>\<open>ChecksumError\<close>.
\<close>

theorem checksum_law:
  fixes s :: bytes
  shows "(sum_list (map uint s) < 2 ^ 32 \<longrightarrow>
            verify_checksum s (hex8 (sum_list (map uint s) mod 2 ^ 32)) = Inr ()) \<and>
         (\<forall>i b. i < length s \<and> b \<noteq> s ! i \<longrightarrow>
            verify_checksum (s[i := b]) (hex8 (sum_list (map uint s) mod 2 ^ 32)) =
              Inl (ChecksumError (sum_list (map uint s) mod 2 ^ 32)
                     (sum_list (map uint (s[i := b])))))"
proof (intro conjI impI allI)
  assume "sum_list (map uint s) < 2 ^ 32"
  then have "sum_list (map uint s) mod 2 ^ 32 = sum_list (map uint s)"
    using sum_list_uint_nonneg [of s] by simp
  then show "verify_checksum s (hex8 (sum_list (map uint s) mod 2 ^ 32)) = Inr ()"
    by (simp add: verify_checksum_def int_base16_hex8)
next
  fix i b
  assume ib: "i < length s \<and> b \<noteq> s ! i"
  let ?a = "sum_list (map uint s)"
  let ?d = "uint b - uint (s ! i)"
  have upd: "sum_list (map uint (s[i := b])) = ?a + ?d"
    using ib by (simp add: sum_list_uint_update)
  have "?d \<noteq> 0"
    using ib by (simp add: word_uint_eq_iff)
  moreover have "- 256 < ?d" "?d < 256"
  proof -
    have "uint b < 256" "uint (s ! i) < 256"
      using uint_lt2p [of b] uint_lt2p [of "s ! i"] by simp_all
    moreover have "0 \<le> uint b" "0 \<le> uint (s ! i)"
      by simp_all
    ultimately show "- 256 < ?d" "?d < 256"
      by linarith+
  qed
  ultimately have "?a mod 2 ^ 32 \<noteq> ?a + ?d"
    using mod_shift_small [of ?a ?d] by blast
  then show "verify_checksum (s[i := b]) (hex8 (?a mod 2 ^ 32)) =
      Inl (ChecksumError (?a mod 2 ^ 32) (sum_list (map uint (s[i := b]))))"
    by (simp add: verify_checksum_def int_base16_hex8 upd Let_def)
qed

theorem checksum_law_witness:
  "verify_checksum [0x68, 0x65, 0x6C, 0x6C, 0x6F, 0x0D, 0x0A]
     [0x30, 0x30, 0x30, 0x30, 0x30, 0x32, 0x32, 0x42] = Inr () \<and>
   verify_checksum [0x68, 0x65, 0x6C, 0x6C, 0x70, 0x0D, 0x0A]
     [0x30, 0x30, 0x30, 0x30, 0x30, 0x32, 0x32, 0x42] = Inl (ChecksumError 555 556)"
proof -
  let ?s = "[0x68, 0x65, 0x6C, 0x6C, 0x6F, 0x0D, 0x0A] :: bytes"
  have h: "hex8 (sum_list (map uint ?s) mod 2 ^ 32) = [0x30, 0x30, 0x30, 0x30, 0x30, 0x32, 0x32, 0x42]"
    by (simp add: hex8_def hex_digit_upper_def)
  have "verify_checksum (?s[4 := 0x70]) (hex8 (sum_list (map uint ?s) mod 2 ^ 32)) =
     Inl (ChecksumError (sum_list (map uint ?s) mod 2 ^ 32) (sum_list (map uint (?s[4 := 0x70]))))"
    using checksum_law [of ?s, THEN conjunct2, rule_format, of 4 "0x70"] by simp
  moreover have "verify_checksum ?s (hex8 (sum_list (map uint ?s) mod 2 ^ 32)) = Inr ()"
    using checksum_law [of ?s, THEN conjunct1] by simp
  ultimately show ?thesis
    unfolding h by (auto simp: verify_checksum_def int_base16_def hex_digit_value_def is_space_def Let_def)
qed

text \<open>
  The claim C2 as stated fails: 16843010 bytes \<open>0xFF\<close> sum to
  \<open>2 ^ 32 + 254\<close>, and the verification against the digits of 254 raises.
\<close>

theorem checksum_mod_counterexample:
  "verify_checksum (replicate 16843010 0xFF)
     (hex8 (sum_list (map uint (replicate 16843010 (0xFF :: byte))) mod 2 ^ 32)) =
   Inl (ChecksumError 254 4294967550)"
  by (simp add: verify_checksum_def int_base16_hex8 Let_def sum_list_replicate)

section \<open>Properties of the reply grammars and of the text commands\<close>

lemma greedy_star_no_later_match:
  assumes "\<And>n. 0 < n \<Longrightarrow> n \<le> length s \<Longrightarrow> k (drop n s) = None"
  shows "greedy_star cls k acc s = map_option (Pair acc) (k s)"
  using assms
proof (induction s arbitrary: acc)
  case Nil
  show ?case by simp
next
  case (Cons x xs)
  have "k (drop n xs) = None" if "0 < n" "n \<le> length xs" for n
    using Cons.prems [of "Suc n"] that by simp
  then have "greedy_star cls k (acc @ [x]) xs = map_option (Pair (acc @ [x])) (k xs)"
    by (rule Cons.IH)
  moreover have "k xs = None"
    using Cons.prems [of 1] by simp
  ultimately show ?case by simp
qed

lemma greedy_star_last_match:
  assumes "list_all cls pre" "k suf = Some r"
    "\<And>n. 0 < n \<Longrightarrow> n \<le> length suf \<Longrightarrow> k (drop n suf) = None"
  shows "greedy_star cls k acc (pre @ suf) = Some (acc @ pre, r)"
  using assms(1)
proof (induction pre arbitrary: acc)
  case Nil
  show ?case
    using greedy_star_no_later_match [of suf k cls acc] assms(2,3) by simp
next
  case (Cons p ps)
  then have "greedy_star cls k (acc @ [p]) (ps @ suf) = Some ((acc @ [p]) @ ps, r)"
    by (intro Cons.IH) simp
  then show ?case
    using Cons.prems by simp
qed

lemma greedy_plus_last_match:
  assumes "pre \<noteq> []" "list_all cls pre" "k suf = Some r"
    "\<And>n. 0 < n \<Longrightarrow> n \<le> length suf \<Longrightarrow> k (drop n suf) = None"
  shows "greedy_plus cls k (pre @ suf) = Some (pre, r)"
proof -
  obtain p ps where pre: "pre = p # ps"
    using assms(1) by (cases pre) auto
  have "greedy_star cls k [p] (ps @ suf) = Some ([p] @ ps, r)"
    using assms(2,3,4) pre by (intro greedy_star_last_match) simp_all
  then show ?thesis
    using assms(2) pre by (simp add: greedy_plus_def)
qed

lemma counted_exact:
  assumes "length xs = n" "list_all cls xs"
  shows "counted n cls k acc (xs @ rest) = map_option (Pair (acc @ xs)) (k rest)"
  using assms by (induction xs arbitrary: n acc) auto

lemma literal_append: "literal lit k (lit @ rest) = k rest"
  by (induction lit) simp_all

lemma literal_crlf_other: "x \<noteq> 0x0D \<Longrightarrow> literal crlf k (x # xs) = None"
  by (simp add: crlf_def)

lemma no_crlf_match_later:
  assumes "0x0D \<notin> set u" "k [] = None"
  shows "literal crlf k (drop m (u @ crlf)) = None"
  using assms(1)
proof (induction u arbitrary: m)
  case Nil
  have "m = 0 \<or> m = 1 \<or> 2 \<le> m" by arith
  then show ?case
    using assms(2) by (auto simp: crlf_def)
next
  case (Cons x u)
  show ?case
  proof (cases m)
    case 0
    then show ?thesis
      using Cons.prems by (simp add: literal_crlf_other)
  next
    case (Suc m')
    then show ?thesis
      using Cons.prems Cons.IH [of m'] by simp
  qed
qed

lemma digit_not_cr: "digit c \<Longrightarrow> c \<noteq> 0x0D"
  by (auto simp: digit_def)

lemma upper_hex_not_cr: "upper_hex c \<Longrightarrow> c \<noteq> 0x0D"
  by (auto simp: upper_hex_def)

lemma upper_hex_not_comma: "upper_hex c \<Longrightarrow> c \<noteq> 0x2C"
  by (auto simp: upper_hex_def)

lemma ascii_comma: "ascii '','' = [0x2C]"
  by (simp add: ascii_def)

lemma trailer_tail:
  assumes "length ck = 8" "list_all upper_hex ck"
  shows "literal (ascii '','') (counted 8 upper_hex (literal crlf dollar) []) (ascii '','' @ ck @ crlf) =
           Some (ck, ())"
  using assms
  by (simp only: literal_append counted_exact [where acc = "[]" and rest = crlf and xs = ck, OF assms]
      literal_append [where rest = "[]", simplified]) (simp add: dollar_def)

lemma trailer_tail_later:
  assumes "list_all upper_hex ck" "0 < n"
  shows "literal (ascii '','') k (drop n (ascii '','' @ ck @ crlf)) = None"
proof -
  have no_comma: "0x2C \<notin> set (ck @ crlf)"
    using assms(1) upper_hex_not_comma by (auto simp: list_all_iff crlf_def)
  obtain n' where n: "n = Suc n'"
    using assms(2) by (cases n) auto
  have "0x2C \<notin> set v \<Longrightarrow> literal [0x2C] k (drop i v) = None" for v :: bytes and i
    by (induction v arbitrary: i) (auto simp: drop_Cons split: nat.splits)
  then have "literal [0x2C] k (drop n' (ck @ crlf)) = None"
    using no_comma by blast
  then show ?thesis
    unfolding ascii_comma n by simp
qed

lemma count_and_checksum:
  assumes "count \<noteq> []" "list_all digit count" "length ck = 8" "list_all upper_hex ck"
  shows "greedy_plus digit (literal (ascii '','') (counted 8 upper_hex (literal crlf dollar) []))
           (count @ ascii '','' @ ck @ crlf) = Some (count, ck, ())"
  using assms(1,2) trailer_tail [OF assms(3,4)] trailer_tail_later [OF assms(4)]
  by (intro greedy_plus_last_match) simp_all

lemma MULTIRECORDS_FORMAT_search_trailer:
  assumes "body \<noteq> []" "count \<noteq> []" "list_all digit count" "length ck = 8"
    "list_all upper_hex ck"
  shows "MULTIRECORDS_FORMAT_search (body @ crlf @ count @ ascii '','' @ ck @ crlf) =
           Some (body @ crlf, count, ck)"
proof -
  let ?k2 = "greedy_plus digit (literal (ascii '','') (counted 8 upper_hex (literal crlf dollar) []))"
  let ?k = "literal crlf ?k2"
  let ?suf = "crlf @ count @ ascii '','' @ ck @ crlf"
  have here: "?k ?suf = Some (count, ck, ())"
    using count_and_checksum [OF assms(2-5)] by (simp only: literal_append)
  have later: "?k (drop n ?suf) = None" if pos: "0 < n" for n
  proof -
    let ?u = "0x0A # count @ ascii '','' @ ck"
    obtain m where n: "n = Suc m"
      using pos by (cases n) auto
    have "0x0D \<notin> set ?u"
      using assms(3,5) digit_not_cr upper_hex_not_cr by (auto simp: list_all_iff ascii_comma)
    moreover have "?k2 [] = None"
      by (simp add: greedy_plus_def)
    ultimately have "?k (drop m (?u @ crlf)) = None"
      by (rule no_crlf_match_later)
    then show ?thesis
      by (simp add: n crlf_def)
  qed
  have "greedy_plus dot ?k (body @ ?suf) = Some (body, count, ck, ())"
    using assms(1) here later by (intro greedy_plus_last_match) (simp_all add: list_all_iff dot_def)
  then show ?thesis
    by (simp add: MULTIRECORDS_FORMAT_search_def)
qed

text \<open>
  C8. The declared count is not compared: when the text reply is a body that ends a line,
  then a count of one or more digits, a comma, eight upper-case hexadecimal digits and the
  end of the line, and the digits are the checksum of the body,
  \<^verbatim>\<open>query_multirecord\<close> returns the records that \<^verbatim>\<open>csv.reader\<close> reads
  from the lines of the decoded body, whatever the count says.
\<close>

theorem query_multirecord_ignores_count:
  assumes "send_text_command_raw P depth s cmd =
             Inr (body @ crlf @ count @ ascii '','' @ ck @ crlf, s')"
    "body \<noteq> []" "count \<noteq> []" "list_all digit count" "length ck = 8" "list_all upper_hex ck"
    "verify_checksum (body @ crlf) ck = Inr ()"
  shows "query_multirecord csv_reader P depth s cmd =
           Inr (csv_reader (split_crlf [] (encoding s' (body @ crlf))), s')"
proof -
  let ?msg = "body @ crlf @ count @ ascii '','' @ ck @ crlf"
  have "length ?msg \<noteq> length (ascii ''Log Empty'' @ crlf)"
    using assms(5) by (simp add: ascii_def crlf_def)
  then have "?msg \<noteq> ascii ''Log Empty'' @ crlf"
    by metis
  moreover have "MULTIRECORDS_FORMAT_search ?msg = Some (body @ crlf, count, ck)"
    using assms(2-6) by (rule MULTIRECORDS_FORMAT_search_trailer)
  ultimately show ?thesis
    using assms(1,7) by (simp add: query_multirecord_def)
qed

lemma ascii_Nil: "ascii [] = []"
  by (simp add: ascii_def)

lemma ascii_Cons: "ascii (c # cs) = of_char c # ascii cs"
  by (simp add: ascii_def)

lemma counted_8:
  "counted 8 cls k acc s = counted (Suc (Suc (Suc (Suc (Suc (Suc (Suc (Suc 0)))))))) cls k acc s"
  by (simp add: eval_nat_numeral)

lemmas run_defs = counted_8 send_text_command_raw_def send_command_def HidWrapper_write_def
  HidWrapper_read_def text_reply_loop.simps read_response.simps response_message_def
  TEXT_COMPLETION_RE_search_def TEXT_REPLY_FORMAT_search_def status_group_def dollar_def
  verify_checksum_def int_base16_def hex_digit_value_def is_space_def Let_def upper_hex_def
  digit_def dot_def
  ascii_Nil ascii_Cons crlf_def slice_def example_defs matcher_iffs
  FREESTYLE_MESSAGE_build_ok unquoted_csv_reader_def ascii_decode_replace_def

lemma text_reply_example:
  "send_text_command_raw stub_speck 10
     (plain_session [0x60 # 45 # ascii ''a,1'' @ crlf @ ascii ''b,2'' @ crlf @
        ascii ''7,000001AC'' @ crlf @ ascii ''CKSM:000003CB'' @ crlf @ ascii ''CMD OK'' @ crlf])
     (ascii ''$result?'' @ crlf) =
   Inr ((ascii ''a,1'' @ crlf @ ascii ''b,2'') @ crlf @ ascii ''7'' @ ascii '','' @
          ascii ''000001AC'' @ crlf,
        (plain_session [])\<lparr>handle := \<lparr>inbound = [], outbound =
          [0 # 0x60 # 10 # ascii ''$result?'' @ crlf @ replicate 52 0]\<rparr>\<rparr>)"
  by (simp add: run_defs)

theorem query_multirecord_ignores_count_witness:
  "query_multirecord unquoted_csv_reader stub_speck 10
     (plain_session [0x60 # 45 # ascii ''a,1'' @ crlf @ ascii ''b,2'' @ crlf @
        ascii ''7,000001AC'' @ crlf @ ascii ''CKSM:000003CB'' @ crlf @ ascii ''CMD OK'' @ crlf])
     (ascii ''$result?'' @ crlf) =
   Inr ([[[97], [49]], [[98], [50]], []],
        (plain_session [])\<lparr>handle := \<lparr>inbound = [], outbound =
          [0 # 0x60 # 10 # ascii ''$result?'' @ crlf @ replicate 52 0]\<rparr>\<rparr>)"
  using query_multirecord_ignores_count [where P = stub_speck and depth = 10
      and body = "ascii ''a,1'' @ crlf @ ascii ''b,2''" and count = "ascii ''7''"
      and ck = "ascii ''000001AC''" and csv_reader = unquoted_csv_reader,
      OF text_reply_example]
  by (simp add: run_defs)

lemma send_command_keys:
  "send_command P s t c = Inr s' \<Longrightarrow> session_keys s' = session_keys s"
  by (auto simp: send_command_def session_keys_def split: sum.splits)

lemma read_response_keys:
  "read_response P depth s = Inr (m, s') \<Longrightarrow> session_keys s' = session_keys s"
  by (auto simp: session_keys_def dest: read_response_result)

lemma text_reply_loop_keys:
  "text_reply_loop P depth s full = Inr (r, s') \<Longrightarrow> session_keys s' = session_keys s"
proof (induction P depth s full rule: text_reply_loop.induct)
  case (1 P depth s full)
  from "1.prems" obtain mtype content s1 where rd: "read_response P depth s = Inr ((mtype, content), s1)"
    by (subst (asm) text_reply_loop.simps) (auto split: sum.splits)
  then have k1: "session_keys s1 = session_keys s"
    by (rule read_response_keys)
  from "1.prems" rd have ty: "\<not> mtype \<noteq> text_reply_message_type s1"
    by (subst (asm) text_reply_loop.simps) (auto split: if_splits)
  show ?case
  proof (cases "TEXT_COMPLETION_RE_search (full @ content)")
    case True
    then have "s' = s1"
      using "1.prems" rd ty by (subst (asm) text_reply_loop.simps) simp
    then show ?thesis using k1 by simp
  next
    case False
    then have "text_reply_loop P depth s1 (full @ content) = Inr (r, s')"
      using "1.prems" rd ty by (subst (asm) text_reply_loop.simps) simp
    then have "session_keys s' = session_keys s1"
      using "1.IH" [OF rd refl refl ty refl False] by simp
    then show ?thesis using k1 by simp
  qed
qed

lemma send_text_command_raw_keys:
  assumes "send_text_command_raw P depth s c = Inr (r, s')"
  shows "session_keys s' = session_keys s"
proof -
  from assms obtain s1 full where s1: "send_command P s (text_message_type s) c = Inr s1"
    and lp: "text_reply_loop P depth s1 [] = Inr (full, s')"
    by (auto simp: send_text_command_raw_def split: sum.splits option.splits if_splits)
  show ?thesis
    using send_command_keys [OF s1] text_reply_loop_keys [OF lp] by simp
qed

lemma send_text_command_keys:
  "send_text_command P depth s c = Inr (r, s') \<Longrightarrow> session_keys s' = session_keys s"
  by (auto simp: send_text_command_def split: sum.splits dest: send_text_command_raw_keys)

lemma query_multirecord_keys:
  assumes "query_multirecord csv_reader P depth s c = Inr (r, s')"
  shows "session_keys s' = session_keys s"
proof -
  from assms obtain raw where "send_text_command_raw P depth s c = Inr (raw, s')"
    by (auto simp: query_multirecord_def Let_def split: sum.splits option.splits if_splits)
  then show ?thesis
    by (rule send_text_command_raw_keys)
qed

lemma connect_plain_keys:
  assumes "\<not> encrypted_protocol s" "connect P depth driver_rand s = Inr s'"
  shows "session_keys s' = session_keys s"
proof -
  from assms obtain s1 m where s1: "send_command P s INIT_COMMAND [] = Inr s1"
    and rd: "read_response P depth s1 = Inr (m, s')"
    by (auto simp: connect_def split: sum.splits if_splits)
  show ?thesis
    using send_command_keys [OF s1] read_response_keys [OF rd] by simp
qed

text \<open>
  C9, as amended. The keys change in \<^verbatim>\<open>encryption_handshake\<close> only:
  \<^verbatim>\<open>send_command\<close>, \<^verbatim>\<open>read_response\<close>, the text commands,
  \<^verbatim>\<open>query_multirecord\<close> and \<^verbatim>\<open>connect\<close> on a session that is not on
  the encrypted protocol all leave both keys as they were.
\<close>

theorem session_keys_change_only_in_handshake:
  "(send_command P s t c = Inr s1 \<longrightarrow> session_keys s1 = session_keys s) \<and>
   (read_response P depth s = Inr (m, s2) \<longrightarrow> session_keys s2 = session_keys s) \<and>
   (send_text_command_raw P depth s c = Inr (raw, s3) \<longrightarrow> session_keys s3 = session_keys s) \<and>
   (send_text_command P depth s c = Inr (txt, s4) \<longrightarrow> session_keys s4 = session_keys s) \<and>
   (query_multirecord csv_reader P depth s c = Inr (recs, s5) \<longrightarrow> session_keys s5 = session_keys s) \<and>
   (\<not> encrypted_protocol s \<and> connect P depth driver_rand s = Inr s6 \<longrightarrow>
      session_keys s6 = session_keys s)"
proof (intro conjI impI)
  show "session_keys s1 = session_keys s" if "send_command P s t c = Inr s1"
    using that by (rule send_command_keys)
  show "session_keys s2 = session_keys s" if "read_response P depth s = Inr (m, s2)"
    using that by (rule read_response_keys)
  show "session_keys s3 = session_keys s" if "send_text_command_raw P depth s c = Inr (raw, s3)"
    using that by (rule send_text_command_raw_keys)
  show "session_keys s4 = session_keys s" if "send_text_command P depth s c = Inr (txt, s4)"
    using that by (rule send_text_command_keys)
  show "session_keys s5 = session_keys s" if "query_multirecord csv_reader P depth s c = Inr (recs, s5)"
    using that by (rule query_multirecord_keys)
  show "session_keys s6 = session_keys s"
    if "\<not> encrypted_protocol s \<and> connect P depth driver_rand s = Inr s6"
    using that connect_plain_keys by blast
qed

lemmas handshake_defs = encryption_handshake_def handshake_reports_def session_keys_def
  int_to_bytes_little_def int_from_bytes_big_def upt_0_8 ALWAYS_UNENCRYPTED_MESSAGES_def
  INIT_COMMAND_def INIT_RESPONSE_def KEEPALIVE_RESPONSE_def ENCRYPTION_SETUP_COMMAND_def
  ENCRYPTION_SETUP_RESPONSE_def

text \<open>
  The claim C9 as stated fails: a handshake on a session that already has keys succeeds
  and installs other keys.
\<close>

theorem second_handshake_counterexample:
  "(case encryption_handshake stub_speck 10 [0x11, 0x11, 0x11, 0x11, 0x11, 0x11, 0x11, 0x11]
           (encrypted_session
              (handshake_reports [0x11, 0x11, 0x11, 0x11, 0x11, 0x11, 0x11, 0x11] @
               handshake_reports [0x22, 0x22, 0x22, 0x22, 0x22, 0x22, 0x22, 0x22])) of
      Inl e \<Rightarrow> False
    | Inr s1 \<Rightarrow>
        fst (session_keys s1) \<noteq> None \<and> snd (session_keys s1) \<noteq> None \<and>
        (case encryption_handshake stub_speck 10 [0x22, 0x22, 0x22, 0x22, 0x22, 0x22, 0x22, 0x22] s1 of
           Inl e \<Rightarrow> False
         | Inr s2 \<Rightarrow>
             fst (session_keys s2) \<noteq> fst (session_keys s1) \<and>
             snd (session_keys s2) \<noteq> snd (session_keys s1)))"
  by (simp add: handshake_defs run_defs)

theorem session_keys_change_only_in_handshake_witness:
  "send_command stub_speck (keyed_session []) 0x14 [0x11] =
     Inr ((keyed_session [])\<lparr>handle := \<lparr>inbound = [],
            outbound = [0 # 0x14 # 1 # 0x11 # replicate 61 0]\<rparr>\<rparr>) \<and>
   read_response stub_speck 10 (keyed_session [[0x71, 1, 1]]) = Inr ((0x71, [1]), keyed_session []) \<and>
   session_keys ((keyed_session [])\<lparr>handle := \<lparr>inbound = [],
            outbound = [0 # 0x14 # 1 # 0x11 # replicate 61 0]\<rparr>\<rparr>) = (Some 1, Some 2) \<and>
   session_keys (keyed_session [[0x71, 1, 1]]) = (Some 1, Some 2) \<and>
   session_keys (keyed_session []) = (Some 1, Some 2)"
  using session_keys_change_only_in_handshake [of stub_speck "keyed_session []" "0x14" "[0x11]"
      "(keyed_session [])\<lparr>handle := \<lparr>inbound = [],
            outbound = [0 # 0x14 # 1 # 0x11 # replicate 61 0]\<rparr>\<rparr>"]
    session_keys_change_only_in_handshake [where P = stub_speck and depth = 10
      and s = "keyed_session [[0x71, 1, 1]]" and m = "(0x71, [1])" and ?s2.0 = "keyed_session []"]
  by (simp add: handshake_defs run_defs)

end
